theory Spec2Isabelle
  imports Complex_Main "HOL-Library.Char_ord" "HOL-Library.List_Lexorder" "HOL-Library.Log_Nat"
begin

section \<open>Routine schedules: the form validators and the server-side validation chain\<close>

text \<open>
  The recurrence type of the TypeScript sources (\<^verbatim>\<open>types/Task.ts\<close>):
  \<^verbatim>\<open>export type RecurrenceType = 'DAILY' | 'WEEKLY' | 'MONTHLY' | 'CUSTOM';\<close>
\<close>

datatype RecurrenceType = DAILY | WEEKLY | MONTHLY | CUSTOM

text \<open>
  \<^verbatim>\<open>String.prototype.trim\<close> strips white space and line terminators. A character is a
  code unit below 256 here; of these, tab, line feed, vertical tab, form feed, carriage
  return, space and the no-break space are stripped (the remaining white space of
  JavaScript lies above 255). The JavaScript truth value of a string: the empty string
  is the only falsy one.
\<close>

definition isWhiteSpace :: "char \<Rightarrow> bool" where
  "isWhiteSpace c =
     (c \<in> set [CHR 0x09, CHR 0x0A, CHR 0x0B, CHR 0x0C, CHR 0x0D, CHR 0x20, CHR 0xA0])"

definition trim :: "string \<Rightarrow> string" where
  "trim s = rev (dropWhile isWhiteSpace (rev (dropWhile isWhiteSpace s)))"

definition truthy :: "string \<Rightarrow> bool" where
  "truthy s = (s \<noteq> [])"

subsection \<open>The routine form (\<^verbatim>\<open>RoutineForm.validateForm\<close>)\<close>

text \<open>
  \<^verbatim>\<open>interface FormData\<close> and \<^verbatim>\<open>interface FormErrors\<close> of the routine form. A field of
  \<^verbatim>\<open>FormErrors\<close> that was never assigned is \<open>None\<close>.
\<close>

record FormData =
  fd_title :: string
  fd_description :: string
  fd_categoryId :: string
  fd_priority :: string
  fd_recurrenceType :: RecurrenceType
  fd_interval :: int
  fd_daysOfWeek :: "string list"
  fd_dayOfMonth :: int
  fd_time :: string
  fd_startDate :: string
  fd_endDate :: string
  fd_isActive :: bool

record FormErrors =
  err_title :: "string option"
  err_categoryId :: "string option"
  err_dueDate :: "string option"
  err_recurrenceType :: "string option"
  err_daysOfWeek :: "string option"
  err_dayOfMonth :: "string option"
  err_interval :: "string option"
  err_general :: "string option"

definition noErrors :: FormErrors where
  "noErrors = \<lparr> err_title = None, err_categoryId = None, err_dueDate = None,
     err_recurrenceType = None, err_daysOfWeek = None, err_dayOfMonth = None,
     err_interval = None, err_general = None \<rparr>"

text \<open>\<^verbatim>\<open>Object.keys(newErrors).length === 0\<close>: no field was assigned.\<close>

definition isEmptyErrors :: "FormErrors \<Rightarrow> bool" where
  "isEmptyErrors e = (err_title e = None \<and> err_categoryId e = None \<and> err_dueDate e = None \<and>
     err_recurrenceType e = None \<and> err_daysOfWeek e = None \<and> err_dayOfMonth e = None \<and>
     err_interval e = None \<and> err_general e = None)"

text \<open>
  The four assignments of \<^verbatim>\<open>validateForm\<close>, in the order of the source; every failing
  rule records its message (the form does not stop at the first one).
\<close>

definition RoutineForm_errors :: "FormData \<Rightarrow> FormErrors" where
  "RoutineForm_errors formData =
    (let e0 = noErrors;
         e1 = (if \<not> truthy (trim (fd_title formData))
               then e0\<lparr>err_title := Some ''Title is required''\<rparr> else e0);
         e2 = (if fd_recurrenceType formData = WEEKLY \<and> length (fd_daysOfWeek formData) = 0
               then e1\<lparr>err_daysOfWeek := Some ''Select at least one day for weekly routine''\<rparr>
               else e1);
         e3 = (if fd_recurrenceType formData = MONTHLY \<and>
                  (fd_dayOfMonth formData < 1 \<or> fd_dayOfMonth formData > 31)
               then e2\<lparr>err_dayOfMonth := Some ''Day of month must be between 1 and 31''\<rparr>
               else e2);
         e4 = (if fd_recurrenceType formData = CUSTOM \<and> fd_interval formData < 1
               then e3\<lparr>err_interval := Some ''Interval must be at least 1''\<rparr> else e3)
     in e4)"

definition RoutineForm_validateForm :: "FormData \<Rightarrow> bool" where
  "RoutineForm_validateForm formData = isEmptyErrors (RoutineForm_errors formData)"

subsection \<open>The add-task page (\<^verbatim>\<open>AddTask.validateForm\<close>)\<close>

datatype TaskType = routine | scheduled

record AddTaskFormData =
  at_title :: string
  at_description :: string
  at_categoryId :: string
  at_taskType :: TaskType
  at_priority :: string
  at_dueDate :: string
  at_dueTime :: string
  at_startDate :: string
  at_recurrenceType :: RecurrenceType
  at_interval :: int
  at_daysOfWeek :: "string list"
  at_dayOfMonth :: int
  at_time :: string
  at_routineStartDate :: string
  at_endDate :: string

definition AddTask_errors :: "AddTaskFormData \<Rightarrow> FormErrors" where
  "AddTask_errors formData =
    (let e0 = noErrors;
         e1 = (if \<not> truthy (trim (at_title formData))
               then e0\<lparr>err_title := Some ''Task title is required''\<rparr> else e0);
         e2 = (if \<not> truthy (at_categoryId formData)
               then e1\<lparr>err_categoryId := Some ''Please select a category''\<rparr> else e1);
         e3 = (if at_taskType formData = scheduled \<and> \<not> truthy (at_dueDate formData)
               then e2\<lparr>err_dueDate := Some ''Due date is required for scheduled tasks''\<rparr>
               else e2);
         e4 = (if at_taskType formData = routine
               then
                 (let r1 = (if at_recurrenceType formData = WEEKLY \<and>
                               length (at_daysOfWeek formData) = 0
                            then e3\<lparr>err_daysOfWeek :=
                                   Some ''Please select at least one day for weekly routines''\<rparr>
                            else e3);
                      r2 = (if at_recurrenceType formData = MONTHLY \<and>
                               (at_dayOfMonth formData < 1 \<or> at_dayOfMonth formData > 31)
                            then r1\<lparr>err_dayOfMonth :=
                                   Some ''Day of month must be between 1 and 31''\<rparr>
                            else r1);
                      r3 = (if at_recurrenceType formData = CUSTOM \<and> at_interval formData < 1
                            then r2\<lparr>err_interval := Some ''Interval must be at least 1 day''\<rparr>
                            else r2)
                  in r3)
               else e3)
     in e4)"

definition AddTask_validateForm :: "AddTaskFormData \<Rightarrow> bool" where
  "AddTask_validateForm formData = isEmptyErrors (AddTask_errors formData)"

subsection \<open>The server-side chain of \<^verbatim>\<open>POST /api/routines\<close> and \<^verbatim>\<open>PUT /api/routines/:id\<close>\<close>

text \<open>
  The request body as the client types it (\<^verbatim>\<open>RoutineSchedule\<close>,
  \<^verbatim>\<open>CreateRoutineRequest\<close>, \<^verbatim>\<open>UpdateRoutineRequest\<close>); an absent property is \<open>None\<close>.
  The recurrence type and the priority are strings here, since the chain itself checks
  them against the legal values.
\<close>

record RoutineSchedule =
  rs_recurrenceType :: "string option"
  rs_interval :: "int option"
  rs_daysOfWeek :: "string list option"
  rs_dayOfMonth :: "int option"
  rs_time :: "string option"

record RoutineRequest =
  rq_title :: "string option"
  rq_description :: "string option"
  rq_categoryId :: "string option"
  rq_priority :: "string option"
  rq_schedule :: "RoutineSchedule option"
  rq_isActive :: "bool option"
  rq_startDate :: "string option"
  rq_endDate :: "string option"

text \<open>
  One link of an express-validator chain yields at most one message. A link without
  \<^verbatim>\<open>.optional()\<close> sees an absent field as the empty string; a link with it is skipped
  when the field is absent. \<^verbatim>\<open>isInt({min, max})\<close> tests the printed form of the value:
  an integer prints as a plain numeral, which passes the range test, unless its
  magnitude is \<open>10\<^sup>2\<^sup>1\<close> or more, when it prints with an exponent and is rejected.
  \<^verbatim>\<open>isArray()\<close> holds of every array.
\<close>

definition required :: "('a \<Rightarrow> bool) \<Rightarrow> 'a \<Rightarrow> string \<Rightarrow> 'a option \<Rightarrow> string list" where
  "required ok dflt msg v = (if ok (case v of None \<Rightarrow> dflt | Some x \<Rightarrow> x) then [] else [msg])"

definition optional :: "('a \<Rightarrow> bool) \<Rightarrow> string \<Rightarrow> 'a option \<Rightarrow> string list" where
  "optional ok msg v = (case v of None \<Rightarrow> [] | Some x \<Rightarrow> if ok x then [] else [msg])"

definition notEmpty :: "string \<Rightarrow> bool" where
  "notEmpty s = (s \<noteq> [])"

definition isIn :: "string list \<Rightarrow> string \<Rightarrow> bool" where
  "isIn vs s = (s \<in> set vs)"

definition printsPlain :: "int \<Rightarrow> bool" where
  "printsPlain n = (\<bar>n\<bar> < 10 ^ 21)"

definition isInt_min :: "int \<Rightarrow> int \<Rightarrow> bool" where
  "isInt_min lo n = (printsPlain n \<and> lo \<le> n)"

definition isInt_min_max :: "int \<Rightarrow> int \<Rightarrow> int \<Rightarrow> bool" where
  "isInt_min_max lo hi n = (printsPlain n \<and> lo \<le> n \<and> n \<le> hi)"

definition isArray :: "string list \<Rightarrow> bool" where
  "isArray xs = True"

definition sched :: "RoutineRequest \<Rightarrow> (RoutineSchedule \<Rightarrow> 'a option) \<Rightarrow> 'a option" where
  "sched req f = (case rq_schedule req of None \<Rightarrow> None | Some s \<Rightarrow> f s)"

definition post_validation :: "RoutineRequest \<Rightarrow> string list" where
  "post_validation req =
     required (\<lambda>s. notEmpty (trim s)) [] ''Title is required'' (rq_title req) @
     required (isIn [''LOW'', ''MEDIUM'', ''HIGH'', ''URGENT'']) [] ''Invalid priority'' (rq_priority req) @
     required (isIn [''DAILY'', ''WEEKLY'', ''MONTHLY'', ''CUSTOM'']) [] ''Invalid recurrence type''
       (sched req rs_recurrenceType) @
     optional (isInt_min 1) ''Interval must be at least 1'' (sched req rs_interval) @
     optional isArray ''Days of week must be an array'' (sched req rs_daysOfWeek) @
     optional (isInt_min_max 1 31) ''Day of month must be between 1 and 31'' (sched req rs_dayOfMonth)"

definition put_validation :: "RoutineRequest \<Rightarrow> string list" where
  "put_validation req =
     optional (\<lambda>s. notEmpty (trim s)) ''Title cannot be empty'' (rq_title req) @
     optional (isIn [''LOW'', ''MEDIUM'', ''HIGH'', ''URGENT'']) ''Invalid priority'' (rq_priority req) @
     optional (isIn [''DAILY'', ''WEEKLY'', ''MONTHLY'', ''CUSTOM'']) ''Invalid recurrence type''
       (sched req rs_recurrenceType) @
     optional (isInt_min 1) ''Interval must be at least 1'' (sched req rs_interval) @
     optional isArray ''Days of week must be an array'' (sched req rs_daysOfWeek) @
     optional (isInt_min_max 1 31) ''Day of month must be between 1 and 31'' (sched req rs_dayOfMonth)"

text \<open>
  The outcome of a handler up to the database write: the 400 response carries the first
  message (\<^verbatim>\<open>errors.array()[0].msg\<close>), then the category is looked up, and an accepted
  request yields the schedule columns that are written. \<^verbatim>\<open>scheduleData\<close> keeps a
  property only when its value is truthy: a non-zero number, any array, a non-empty
  string. A request without a schedule never passes the chain (its recurrence type is
  absent), so the last branch of \<open>post_routine\<close> is never taken.
\<close>

record ScheduleData =
  sd_recurrenceType :: "string option"
  sd_interval :: "int option"
  sd_daysOfWeek :: "string list option"
  sd_dayOfMonth :: "int option"
  sd_time :: "string option"

definition truthyNum :: "int option \<Rightarrow> int option" where
  "truthyNum v = (case v of Some n \<Rightarrow> if n \<noteq> 0 then Some n else None | None \<Rightarrow> None)"

definition truthyStr :: "string option \<Rightarrow> string option" where
  "truthyStr v = (case v of Some s \<Rightarrow> if truthy s then Some s else None | None \<Rightarrow> None)"

definition scheduleData :: "RoutineSchedule \<Rightarrow> ScheduleData" where
  "scheduleData s = \<lparr> sd_recurrenceType = rs_recurrenceType s,
     sd_interval = truthyNum (rs_interval s),
     sd_daysOfWeek = rs_daysOfWeek s,
     sd_dayOfMonth = truthyNum (rs_dayOfMonth s),
     sd_time = truthyStr (rs_time s) \<rparr>"

datatype response = Rejected nat string | Accepted ScheduleData

definition invalidCategory :: "string list \<Rightarrow> RoutineRequest \<Rightarrow> bool" where
  "invalidCategory categories req =
     (case rq_categoryId req of None \<Rightarrow> False | Some c \<Rightarrow> truthy c \<and> c \<notin> set categories)"

definition post_routine :: "string list \<Rightarrow> RoutineRequest \<Rightarrow> response" where
  "post_routine categories req =
     (case post_validation req of
        msg # _ \<Rightarrow> Rejected 400 msg
      | [] \<Rightarrow>
          if invalidCategory categories req then Rejected 400 ''Invalid category''
          else (case rq_schedule req of
                  Some s \<Rightarrow> Accepted (scheduleData s)
                | None \<Rightarrow> Rejected 400 ''Invalid recurrence type''))"

text \<open>
  The update handler: the routine must exist and belong to the user (404 otherwise), and
  only the schedule properties that are present are written, a falsy one as \<^verbatim>\<open>null\<close>
  (\<open>None\<close> below means that the column is left alone or set to \<^verbatim>\<open>null\<close>).
\<close>

definition updateData :: "RoutineSchedule option \<Rightarrow> ScheduleData" where
  "updateData so =
     (case so of
        None \<Rightarrow> \<lparr> sd_recurrenceType = None, sd_interval = None, sd_daysOfWeek = None,
                  sd_dayOfMonth = None, sd_time = None \<rparr>
      | Some s \<Rightarrow> \<lparr> sd_recurrenceType = truthyStr (rs_recurrenceType s),
                    sd_interval = truthyNum (rs_interval s),
                    sd_daysOfWeek = rs_daysOfWeek s,
                    sd_dayOfMonth = truthyNum (rs_dayOfMonth s),
                    sd_time = truthyStr (rs_time s) \<rparr>)"

definition put_routine :: "string list \<Rightarrow> bool \<Rightarrow> RoutineRequest \<Rightarrow> response" where
  "put_routine categories existingRoutine req =
     (case put_validation req of
        msg # _ \<Rightarrow> Rejected 400 msg
      | [] \<Rightarrow>
          if \<not> existingRoutine then Rejected 404 ''Routine not found''
          else if invalidCategory categories req then Rejected 400 ''Invalid category''
          else Accepted (updateData (rq_schedule req)))"

text \<open>
  Two concrete inputs for the examples below: a create request that is valid apart from
  its schedule, and the schedule of a daily routine with no further property.
\<close>

definition validRequest :: "RoutineSchedule \<Rightarrow> RoutineRequest" where
  "validRequest s = \<lparr> rq_title = Some ''Water the plants'', rq_description = None,
     rq_categoryId = None, rq_priority = Some ''MEDIUM'', rq_schedule = Some s,
     rq_isActive = None, rq_startDate = None, rq_endDate = None \<rparr>"

definition dailySchedule :: RoutineSchedule where
  "dailySchedule = \<lparr> rs_recurrenceType = Some ''DAILY'', rs_interval = None,
     rs_daysOfWeek = None, rs_dayOfMonth = None, rs_time = None \<rparr>"

section \<open>Time values and calendar dates of the JavaScript \<^verbatim>\<open>Date\<close> object\<close>

text \<open>
  A \<^verbatim>\<open>Date\<close> holds a time value: the milliseconds since 1970-01-01T00:00:00Z, an
  integer. The functions below are those of the language specification (Day,
  TimeWithinDay, DaysInYear, DayFromYear, YearFromTime, InLeapYear, MonthFromTime,
  DateFromTime, MakeDay, MakeDate), on unbounded integers. The year of a day is computed
  from an estimate that is off by at most one (lemma \<open>YearFromDay_correct\<close> below shows
  that it is the largest year starting on or before the day).
\<close>

definition msPerDay :: int where
  "msPerDay = 86400000"

definition Day :: "int \<Rightarrow> int" where
  "Day t = t div msPerDay"

definition TimeWithinDay :: "int \<Rightarrow> int" where
  "TimeWithinDay t = t mod msPerDay"

definition DaysInYear :: "int \<Rightarrow> int" where
  "DaysInYear y = (if y mod 4 \<noteq> 0 then 365 else if y mod 100 \<noteq> 0 then 366
                   else if y mod 400 \<noteq> 0 then 365 else 366)"

definition DayFromYear :: "int \<Rightarrow> int" where
  "DayFromYear y = 365 * (y - 1970) + (y - 1969) div 4 - (y - 1901) div 100 + (y - 1601) div 400"

definition YearFromDay :: "int \<Rightarrow> int" where
  "YearFromDay d =
     (let y = 1970 + (400 * d) div 146097
      in if d < DayFromYear y then y - 1
         else if DayFromYear (y + 1) \<le> d then y + 1
         else y)"

definition YearFromTime :: "int \<Rightarrow> int" where
  "YearFromTime t = YearFromDay (Day t)"

definition leapDays :: "int \<Rightarrow> int" where
  "leapDays y = DaysInYear y - 365"

definition InLeapYear :: "int \<Rightarrow> int" where
  "InLeapYear t = leapDays (YearFromTime t)"

definition DayWithinYear :: "int \<Rightarrow> int" where
  "DayWithinYear t = Day t - DayFromYear (YearFromTime t)"

text \<open>The day within the year on which month \<open>m\<close> (0 to 11) starts; 12 gives the year's length.\<close>

definition monthStart :: "int \<Rightarrow> int \<Rightarrow> int" where
  "monthStart leap m =
     (if m = 0 then 0 else if m = 1 then 31 else if m = 2 then 59 + leap
      else if m = 3 then 90 + leap else if m = 4 then 120 + leap
      else if m = 5 then 151 + leap else if m = 6 then 181 + leap
      else if m = 7 then 212 + leap else if m = 8 then 243 + leap
      else if m = 9 then 273 + leap else if m = 10 then 304 + leap
      else if m = 11 then 334 + leap else 365 + leap)"

definition monthOfDay :: "int \<Rightarrow> int \<Rightarrow> int" where
  "monthOfDay leap d =
     (if d < 31 then 0 else if d < 59 + leap then 1 else if d < 90 + leap then 2
      else if d < 120 + leap then 3 else if d < 151 + leap then 4
      else if d < 181 + leap then 5 else if d < 212 + leap then 6
      else if d < 243 + leap then 7 else if d < 273 + leap then 8
      else if d < 304 + leap then 9 else if d < 334 + leap then 10 else 11)"

definition MonthFromTime :: "int \<Rightarrow> int" where
  "MonthFromTime t = monthOfDay (InLeapYear t) (DayWithinYear t)"

definition DateFromTime :: "int \<Rightarrow> int" where
  "DateFromTime t = DayWithinYear t - monthStart (InLeapYear t) (MonthFromTime t) + 1"

definition MakeDay :: "int \<Rightarrow> int \<Rightarrow> int \<Rightarrow> int" where
  "MakeDay year month date =
     (let ym = year + month div 12; mn = month mod 12
      in DayFromYear ym + monthStart (leapDays ym) mn + date - 1)"

definition MakeDate :: "int \<Rightarrow> int \<Rightarrow> int" where
  "MakeDate day time = day * msPerDay + time"

text \<open>
  Local time. The host's time zone is a parameter of everything that reads local fields:
  the offset of its standard time from UTC in milliseconds, and the periods of summer
  time, each given by the time values at which it starts and ends, during which the
  clocks are one hour ahead of standard time. \<open>LocalTZA\<close>, \<open>LocalTime\<close> and \<open>UTC\<close> are those
  of the language specification. When the clocks are put forward the local times of
  one hour do not occur, and when they are put back the local times of one hour occur
  twice: \<open>LocalTZA\<close> reads such a local time with the offset in force before the change.
  The setters used by the sources follow the specification: they rebuild the time value
  from the local fields.
\<close>

definition msPerHour :: int where
  "msPerHour = 3600000"

record TimeZone =
  tz_standard :: int
  tz_summer :: "(int \<times> int) list"

definition LocalTZA :: "TimeZone \<Rightarrow> int \<Rightarrow> bool \<Rightarrow> int" where
  "LocalTZA z t isUTC =
     (if isUTC
      then tz_standard z +
           (if list_ex (\<lambda>(a, b). a \<le> t \<and> t < b) (tz_summer z) then msPerHour else 0)
      else tz_standard z +
           (if list_ex (\<lambda>(a, b). a + tz_standard z + msPerHour \<le> t \<and>
                                t < b + tz_standard z + msPerHour) (tz_summer z)
            then msPerHour else 0))"

definition LocalTime :: "TimeZone \<Rightarrow> int \<Rightarrow> int" where
  "LocalTime z t = t + LocalTZA z t True"

definition UTC :: "TimeZone \<Rightarrow> int \<Rightarrow> int" where
  "UTC z t = t - LocalTZA z t False"

text \<open>
  Two hosts for the examples: one on UTC, and one in New York, five hours behind UTC,
  with the summer time of 2025 (from 9 March, 07:00 UTC, to 2 November, 06:00 UTC).
\<close>

definition utc :: TimeZone where
  "utc = \<lparr> tz_standard = 0, tz_summer = [] \<rparr>"

definition newYork :: TimeZone where
  "newYork = \<lparr> tz_standard = - 5 * 3600000, tz_summer = [(1741503600000, 1762063200000)] \<rparr>"

definition getDate :: "TimeZone \<Rightarrow> int \<Rightarrow> int" where
  "getDate z t = DateFromTime (LocalTime z t)"

definition getMonth :: "TimeZone \<Rightarrow> int \<Rightarrow> int" where
  "getMonth z t = MonthFromTime (LocalTime z t)"

definition setHours0 :: "TimeZone \<Rightarrow> int \<Rightarrow> int" where
  \<comment> \<open>\<^verbatim>\<open>setHours(0, 0, 0, 0)\<close>\<close>
  "setHours0 z t = UTC z (MakeDate (Day (LocalTime z t)) 0)"

definition setDate :: "TimeZone \<Rightarrow> int \<Rightarrow> int \<Rightarrow> int" where
  "setDate z t dt =
     (let l = LocalTime z t
      in UTC z (MakeDate (MakeDay (YearFromTime l) (MonthFromTime l) dt) (TimeWithinDay l)))"

definition setMonth :: "TimeZone \<Rightarrow> int \<Rightarrow> int \<Rightarrow> int" where
  "setMonth z t m =
     (let l = LocalTime z t
      in UTC z (MakeDate (MakeDay (YearFromTime l) m (DateFromTime l)) (TimeWithinDay l)))"

text \<open>
  \<^verbatim>\<open>toDateString()\<close> prints the weekday, month, day and year of the local date, so two
  time values have the same date string exactly when they fall on the same local day.
  The sources only compare these strings for equality (\<^verbatim>\<open>===\<close>, \<^verbatim>\<open>includes\<close>,
  \<^verbatim>\<open>indexOf\<close>, \<^verbatim>\<open>Set\<close>) and parse them back, so a date string is represented by the
  number of its local day; \<^verbatim>\<open>new Date(dateString)\<close> is local midnight of that day.
  Where the sources sort date strings, the day numbers are sorted instead: the order
  differs from the order of the strings, but nothing after the sort depends on it.
\<close>

type_synonym dateString = int

definition toDateString :: "TimeZone \<Rightarrow> int \<Rightarrow> dateString" where
  "toDateString z t = Day (LocalTime z t)"

definition Date_of_dateString :: "TimeZone \<Rightarrow> dateString \<Rightarrow> int" where
  "Date_of_dateString z s = UTC z (MakeDate s 0)"

subsection \<open>ISO strings: \<^verbatim>\<open>toISOString\<close>, \<^verbatim>\<open>split('T')[0]\<close> and \<^verbatim>\<open>Date.parse\<close>\<close>

definition digit :: "int \<Rightarrow> char" where
  "digit n = char_of (48 + n)"

definition pad2 :: "int \<Rightarrow> string" where
  "pad2 n = [digit (n div 10 mod 10), digit (n mod 10)]"

definition pad3 :: "int \<Rightarrow> string" where
  "pad3 n = [digit (n div 100 mod 10), digit (n div 10 mod 10), digit (n mod 10)]"

definition pad4 :: "int \<Rightarrow> string" where
  "pad4 n = [digit (n div 1000 mod 10), digit (n div 100 mod 10), digit (n div 10 mod 10),
             digit (n mod 10)]"

definition pad6 :: "int \<Rightarrow> string" where
  "pad6 n = [digit (n div 100000 mod 10), digit (n div 10000 mod 10)] @ pad4 n"

text \<open>Years outside 0 to 9999 print in the expanded form, with a sign and six digits.\<close>

definition isoYear :: "int \<Rightarrow> string" where
  "isoYear y = (if 0 \<le> y \<and> y \<le> 9999 then pad4 y
                else (if y < 0 then ''-'' else ''+'') @ pad6 \<bar>y\<bar>)"

definition isoDate :: "int \<Rightarrow> int \<Rightarrow> int \<Rightarrow> string" where
  "isoDate y m d = isoYear y @ ''-'' @ pad2 m @ ''-'' @ pad2 d"

definition isoTime :: "int \<Rightarrow> string" where
  "isoTime ms = pad2 (ms div 3600000 mod 24) @ '':'' @ pad2 (ms div 60000 mod 60) @ '':'' @
                pad2 (ms div 1000 mod 60) @ ''.'' @ pad3 (ms mod 1000) @ ''Z''"

definition toISOString :: "int \<Rightarrow> string" where
  "toISOString t = isoDate (YearFromTime t) (MonthFromTime t + 1) (DateFromTime t) @ ''T'' @
                   isoTime (TimeWithinDay t)"

definition split_T :: "string \<Rightarrow> string" where
  \<comment> \<open>\<^verbatim>\<open>s.split('T')[0]\<close>: the part before the first \<^verbatim>\<open>T\<close>\<close>
  "split_T s = takeWhile (\<lambda>c. c \<noteq> CHR ''T'') s"

text \<open>
  \<^verbatim>\<open>Date.parse\<close> on the date-time form \<^verbatim>\<open>YYYY-MM-DDTHH:mm:ss.sssZ\<close>, which is the form of
  every string the sources build or receive for a date; the result is a time value, or
  \<open>None\<close> for \<^verbatim>\<open>NaN\<close> (an invalid date). Any other string is taken to be invalid. As in
  V8, the engine of Node.js and Chrome, a day up to 31 is accepted in every month and
  carried over into the next month by \<open>MakeDay\<close>, and the hour 24 is accepted for
  \<^verbatim>\<open>24:00:00.000\<close>.
\<close>

definition digitVal :: "char \<Rightarrow> int option" where
  "digitVal c = (if CHR ''0'' \<le> c \<and> c \<le> CHR ''9'' then Some (of_char c - 48) else None)"

fun number :: "int \<Rightarrow> string \<Rightarrow> int option" where
  "number acc [] = Some acc"
| "number acc (c # cs) = (case digitVal c of None \<Rightarrow> None | Some v \<Rightarrow> number (10 * acc + v) cs)"

definition field :: "string \<Rightarrow> nat \<Rightarrow> nat \<Rightarrow> int option" where
  "field s i n = number 0 (take n (drop i s))"

definition DaysInMonth :: "int \<Rightarrow> int \<Rightarrow> int" where
  "DaysInMonth y m = monthStart (leapDays y) m - monthStart (leapDays y) (m - 1)"

definition Date_parse :: "string \<Rightarrow> int option" where
  "Date_parse s =
     (if length s = 24 \<and> s ! 4 = CHR ''-'' \<and> s ! 7 = CHR ''-'' \<and> s ! 10 = CHR ''T'' \<and>
         s ! 13 = CHR '':'' \<and> s ! 16 = CHR '':'' \<and> s ! 19 = CHR ''.'' \<and> s ! 23 = CHR ''Z''
      then
        (case (field s 0 4, field s 5 2, field s 8 2, field s 11 2, field s 14 2, field s 17 2,
               field s 20 3) of
           (Some y, Some m, Some d, Some hh, Some mm, Some ss, Some ms) \<Rightarrow>
             if 1 \<le> m \<and> m \<le> 12 \<and> 1 \<le> d \<and> d \<le> 31 \<and>
                (hh \<le> 23 \<and> mm \<le> 59 \<and> ss \<le> 59 \<or> hh = 24 \<and> mm = 0 \<and> ss = 0 \<and> ms = 0)
             then Some (MakeDate (MakeDay y (m - 1) d)
                          (hh * 3600000 + mm * 60000 + ss * 1000 + ms))
             else None
         | _ \<Rightarrow> None)
      else None)"

text \<open>
  Arithmetic on numbers that may be \<^verbatim>\<open>NaN\<close>: a difference is \<^verbatim>\<open>NaN\<close> when an operand is,
  and a comparison with \<^verbatim>\<open>NaN\<close> is false. \<^verbatim>\<open>Math.ceil(a / b)\<close> for integers \<open>a\<close> and
  positive \<open>b\<close> is the ceiling of the quotient.
\<close>

definition minus_nan :: "int option \<Rightarrow> int option \<Rightarrow> int option" where
  "minus_nan a b = (case (a, b) of (Some x, Some y) \<Rightarrow> Some (x - y) | _ \<Rightarrow> None)"

definition ceil_div :: "int option \<Rightarrow> int \<Rightarrow> int option" where
  "ceil_div a b = (case a of Some x \<Rightarrow> Some (- ((- x) div b)) | None \<Rightarrow> None)"

definition le_nan :: "int option \<Rightarrow> int \<Rightarrow> bool" where
  "le_nan a b = (case a of Some x \<Rightarrow> x \<le> b | None \<Rightarrow> False)"

section \<open>\<^verbatim>\<open>utils/dateUtils.ts\<close>\<close>

datatype TaskStatus = Overdue | DueToday | DueSoon | Future | Completed

text \<open>
  \<^verbatim>\<open>getTaskStatus\<close>; the clock reading \<^verbatim>\<open>new Date()\<close> is the parameter \<open>now\<close>. The two
  date strings are compared as strings, in the order of their characters.
\<close>

definition getTaskStatus :: "int \<Rightarrow> string \<Rightarrow> bool \<Rightarrow> TaskStatus" where
  "getTaskStatus now dueDate completed =
     (if completed then Completed
      else
        (let today = split_T (toISOString now);
             due = split_T dueDate
         in if due < today then Overdue
            else if due = today then DueToday
            else
              (let todayDate = Date_parse (today @ ''T00:00:00.000Z'');
                   dueDate' = Date_parse (due @ ''T00:00:00.000Z'');
                   diffTime = minus_nan dueDate' todayDate;
                   diffDays = ceil_div diffTime (1000 * 60 * 60 * 24)
               in if le_nan diffDays 3 then DueSoon else Future)))"

text \<open>
  A task as both sides of the application read it. The creation and modification
  stamps are time values. The due date is a property that may be missing (\<open>None\<close>, the
  \<^verbatim>\<open>dueDate?\<close> of the client's type) and otherwise holds \<^verbatim>\<open>null\<close> or a date: on the
  server a row read from the database carries \<^verbatim>\<open>null\<close> or a \<^verbatim>\<open>Date\<close> object (the column is
  an optional \<^verbatim>\<open>DateTime\<close>), on the client the same task arrives as JSON and carries
  \<^verbatim>\<open>null\<close> or the ISO string of that date.
\<close>

datatype DateValue = DateNull | DateObject int | DateString string

record Task =
  t_completed :: bool
  t_priority :: string
  t_categoryId :: "string option"
  t_dueDate :: "DateValue option"
  t_createdAt :: int
  t_updatedAt :: int

text \<open>
  The comparator of \<^verbatim>\<open>sortTasksByDueDate\<close>. \<^verbatim>\<open>new Date(d).getTime()\<close> is \<^verbatim>\<open>NaN\<close> for a
  missing \<^verbatim>\<open>d\<close> (\<^verbatim>\<open>undefined\<close>), 0 for \<^verbatim>\<open>null\<close>, the parsed time value for a string and
  the time value itself for a \<^verbatim>\<open>Date\<close> object; a comparator result of \<^verbatim>\<open>NaN\<close> counts as
  0 in \<^verbatim>\<open>Array.prototype.sort\<close>.
\<close>

definition getTime :: "DateValue option \<Rightarrow> int option" where
  "getTime d =
     (case d of
        None \<Rightarrow> None
      | Some DateNull \<Rightarrow> Some 0
      | Some (DateString s) \<Rightarrow> Date_parse s
      | Some (DateObject t) \<Rightarrow> Some t)"

definition compareTasks :: "bool \<Rightarrow> Task \<Rightarrow> Task \<Rightarrow> int" where
  "compareTasks ascending a b =
     (if t_completed a \<and> \<not> t_completed b then 1
      else if \<not> t_completed a \<and> t_completed b then - 1
      else
        (let dateA = getTime (t_dueDate a); dateB = getTime (t_dueDate b)
         in case (if ascending then minus_nan dateA dateB else minus_nan dateB dateA) of
              Some v \<Rightarrow> v
            | None \<Rightarrow> 0))"

text \<open>
  \<^verbatim>\<open>Array.prototype.sort\<close> is stable; it is modelled as a stable insertion sort: an
  element is put before the first element of the sorted rest that it does not exceed,
  so elements that compare equal keep the order in which they came. (For a comparator
  that is not a consistent order the language leaves the resulting order to the
  implementation.)
\<close>

fun insertBy :: "('a \<Rightarrow> 'a \<Rightarrow> int) \<Rightarrow> 'a \<Rightarrow> 'a list \<Rightarrow> 'a list" where
  "insertBy cmp x [] = [x]"
| "insertBy cmp x (y # ys) = (if cmp x y \<le> 0 then x # y # ys else y # insertBy cmp x ys)"

fun sortBy :: "('a \<Rightarrow> 'a \<Rightarrow> int) \<Rightarrow> 'a list \<Rightarrow> 'a list" where
  "sortBy cmp [] = []"
| "sortBy cmp (x # xs) = insertBy cmp x (sortBy cmp xs)"

text \<open>
  Arrays are mutable objects: a heap is the list of the arrays allocated so far, and an
  array reference is an index into it. The spread \<^verbatim>\<open>[...tasks]\<close> allocates a new array
  with the elements of \<^verbatim>\<open>tasks\<close>; \<^verbatim>\<open>sort\<close> then reorders that new array in place and
  returns the reference to it. A reference that is not allocated cannot occur in the
  program; the model answers \<open>None\<close> for it.
\<close>

type_synonym heap = "Task list list"

definition spread :: "heap \<Rightarrow> nat \<Rightarrow> (nat \<times> heap) option" where
  "spread h a = (if a < length h then Some (length h, h @ [h ! a]) else None)"

definition sort_in_place :: "(Task \<Rightarrow> Task \<Rightarrow> int) \<Rightarrow> heap \<Rightarrow> nat \<Rightarrow> (nat \<times> heap) option" where
  "sort_in_place cmp h a = (if a < length h then Some (a, h[a := sortBy cmp (h ! a)]) else None)"

definition sortTasksByDueDate :: "heap \<Rightarrow> nat \<Rightarrow> bool \<Rightarrow> (nat \<times> heap) option" where
  "sortTasksByDueDate h tasks ascending =
     (case spread h tasks of
        None \<Rightarrow> None
      | Some (copy, h') \<Rightarrow> sort_in_place (compareTasks ascending) h' copy)"


section \<open>\<^verbatim>\<open>routes/reports.js\<close>\<close>

text \<open>
  \<^verbatim>\<open>getDateRange\<close>. The handler reads the clock several times within one request; all
  readings are the one time value \<open>now\<close>. \<^verbatim>\<open>new Date('2000-01-01')\<close> is midnight UTC of
  that day. The result is the pair \<^verbatim>\<open>{ startDate, endDate }\<close>.
\<close>

definition getDateRange :: "TimeZone \<Rightarrow> int \<Rightarrow> string \<Rightarrow> int \<times> int" where
  "getDateRange z now period =
     (let startDate =
        (if period = ''today'' then setHours0 z now
         else if period = ''week'' then setDate z now (getDate z now - 7)
         else if period = ''month'' then setMonth z now (getMonth z now - 1)
         else MakeDate (MakeDay 2000 0 1) 0)
      in (startDate, now))"

subsection \<open>\<^verbatim>\<open>calculateStreak\<close>\<close>

primrec indexOf :: "'a list \<Rightarrow> 'a \<Rightarrow> int" where
  "indexOf [] x = - 1"
| "indexOf (y # ys) x =
     (if y = x then 0 else (let i = indexOf ys x in if i < 0 then - 1 else i + 1))"

definition removeDuplicates :: "'a list \<Rightarrow> 'a list" where
  \<comment> \<open>\<^verbatim>\<open>.filter((date, index, arr) => arr.indexOf(date) === index)\<close>\<close>
  "removeDuplicates arr =
     map snd (filter (\<lambda>(index, date). indexOf arr date = int index) (enumerate 0 arr))"

definition includes_arr :: "'a list \<Rightarrow> 'a \<Rightarrow> bool" where
  "includes_arr arr x = (x \<in> set arr)"

text \<open>
  Stepping a date back by \<^verbatim>\<open>setDate(getDate() - 1)\<close> rebuilds the time value from the
  local fields of the day before. The local time after the step is a day earlier, give
  or take the hour of a clock change; the loop of \<^verbatim>\<open>calculateStreak\<close> terminates because
  each round moves to an earlier local time and the earliest completion date bounds the
  local time of every round from below.
\<close>

lemma monthOfDay_range: "0 \<le> monthOfDay l d \<and> monthOfDay l d \<le> 11"
  by (simp add: monthOfDay_def)

lemma MakeDay_fields:
  "MakeDay (YearFromTime t) (MonthFromTime t) (DateFromTime t + k) = Day t + k"
proof -
  have "MonthFromTime t div 12 = 0" "MonthFromTime t mod 12 = MonthFromTime t"
    using monthOfDay_range [of "InLeapYear t" "DayWithinYear t"]
    by (simp_all add: MonthFromTime_def)
  then show ?thesis
    by (simp add: MakeDay_def DateFromTime_def DayWithinYear_def InLeapYear_def)
qed

lemma MakeDate_Day: "MakeDate (Day t + k) (TimeWithinDay t) = t + k * msPerDay"
  by (simp add: MakeDate_def Day_def TimeWithinDay_def algebra_simps)

lemma setDate_getDate: "setDate z t (getDate z t + k) = UTC z (LocalTime z t + k * msPerDay)"
  by (simp add: setDate_def getDate_def Let_def MakeDay_fields MakeDate_Day)

lemma Day_add_days: "Day (t + k * msPerDay) = Day t + k"
  by (simp add: Day_def msPerDay_def)

lemma LocalTZA_cases:
  "LocalTZA z t u = tz_standard z \<or> LocalTZA z t u = tz_standard z + msPerHour"
  by (simp add: LocalTZA_def)

lemma LocalTime_UTC_bounds:
  "l - msPerHour \<le> LocalTime z (UTC z l) \<and> LocalTime z (UTC z l) \<le> l + msPerHour"
  using LocalTZA_cases [of z l False] LocalTZA_cases [of z "UTC z l" True]
  by (auto simp: LocalTime_def UTC_def msPerHour_def)

lemma LocalTime_previous:
  "LocalTime z (setDate z t (getDate z t - 1)) \<le> LocalTime z t - 23 * msPerHour"
proof -
  have "setDate z t (getDate z t - 1) = UTC z (LocalTime z t + (- 1) * msPerDay)"
    using setDate_getDate [of z t "- 1"] by simp
  then show ?thesis
    using LocalTime_UTC_bounds [of "LocalTime z t + (- 1) * msPerDay" z]
    by (simp add: msPerDay_def msPerHour_def)
qed

lemma Day_lower: "Day t * msPerDay \<le> t"
  by (simp add: Day_def msPerDay_def)

function streak_loop :: "TimeZone \<Rightarrow> dateString list \<Rightarrow> int \<Rightarrow> int \<Rightarrow> int" where
  "streak_loop z completionDates currentDate streak =
     (if includes_arr completionDates (toDateString z currentDate)
      then streak_loop z completionDates
             (setDate z currentDate (getDate z currentDate - 1)) (streak + 1)
      else streak)"
  by pat_completeness auto
termination
proof (relation "measure (\<lambda>(z, completionDates, currentDate, streak).
         nat (LocalTime z currentDate - Min (set completionDates) * msPerDay + 1))")
  show "wf (measure (\<lambda>(z, completionDates, currentDate, streak).
         nat (LocalTime z currentDate - Min (set completionDates) * msPerDay + 1)))"
    by simp
next
  fix z :: TimeZone and completionDates :: "dateString list" and currentDate streak :: int
  assume "includes_arr completionDates (toDateString z currentDate)"
  then have mem: "Day (LocalTime z currentDate) \<in> set completionDates"
    by (simp add: includes_arr_def toDateString_def)
  then have "Min (set completionDates) \<le> Day (LocalTime z currentDate)"
    by simp
  then have "Min (set completionDates) * msPerDay \<le> Day (LocalTime z currentDate) * msPerDay"
    by (simp add: msPerDay_def)
  then have lo: "Min (set completionDates) * msPerDay \<le> LocalTime z currentDate"
    using Day_lower [of "LocalTime z currentDate"] by simp
  have "LocalTime z (setDate z currentDate (getDate z currentDate - 1))
        < LocalTime z currentDate"
    using LocalTime_previous [of z currentDate] by (simp add: msPerHour_def)
  then show "((z, completionDates, setDate z currentDate (getDate z currentDate - 1),
               streak + 1), z, completionDates, currentDate, streak)
             \<in> measure (\<lambda>(z, completionDates, currentDate, streak).
                 nat (LocalTime z currentDate - Min (set completionDates) * msPerDay + 1))"
    using lo by simp
qed

text \<open>The loop equation is applied by hand in the proofs below.\<close>

declare streak_loop.simps [simp del]

definition calculateStreak :: "TimeZone \<Rightarrow> int \<Rightarrow> Task list \<Rightarrow> int" where
  "calculateStreak z now tasks =
     (if length tasks = 0 then 0
      else
        (let completionDates =
               removeDuplicates (sort (map (\<lambda>task. toDateString z (t_updatedAt task))
                                         (filter t_completed tasks)))
         in if length completionDates = 0 then 0
            else
              (let today = toDateString z now;
                   yesterday = toDateString z (now - 86400000)
               in if \<not> includes_arr completionDates today \<and> \<not> includes_arr completionDates yesterday
                  then 0
                  else
                    (let checkDate = (if includes_arr completionDates today then today else yesterday);
                         currentDate = Date_of_dateString z checkDate
                     in streak_loop z completionDates currentDate 0))))"

subsection \<open>\<^verbatim>\<open>GET /api/reports\<close>\<close>

text \<open>
  The handler queries the user's tasks twice: once through \<^verbatim>\<open>baseFilter\<close> (creation
  stamp within the date range, and the category when one other than \<^verbatim>\<open>'all'\<close> is
  asked for), once without any filter for the streak. Both queries are filters of the
  user's task list \<open>userTasks\<close>; the order of the rows enters no figure of the report.
  Of the payload the model keeps the task figures of the overview, the summary, the
  period and the date range (the routine counts and the priority and category
  distributions are left out).

  The rates are JavaScript numbers, that is, double-precision floating-point numbers.
  Such a number is a rational, and every division and multiplication yields the double
  nearest to the exact result: \<open>fl\<close> rounds a rational to 53 significant binary digits,
  a tie to the even neighbour. (The range of the exponent is not modelled; the numbers
  of a report are far from its ends.) \<^verbatim>\<open>Math.round(x)\<close> is \<open>\<lfloor>x + 1/2\<rfloor>\<close>.

  The overdue filter calls \<^verbatim>\<open>task.dueDate.split('T')\<close> on every task that is not completed
  and has a due date. A string has that method; a \<^verbatim>\<open>Date\<close> object has not, and the call
  raises a \<^verbatim>\<open>TypeError\<close>, which the handler passes on: no report is produced then.
\<close>

datatype jsError = TypeError

definition baseFilter :: "int \<times> int \<Rightarrow> string option \<Rightarrow> Task \<Rightarrow> bool" where
  "baseFilter dates categoryId task =
     (fst dates \<le> t_createdAt task \<and> t_createdAt task \<le> snd dates \<and>
      (case categoryId of
         Some c \<Rightarrow> if truthy c \<and> c \<noteq> ''all'' then t_categoryId task = Some c else True
       | None \<Rightarrow> True))"

definition count_completed :: "Task list \<Rightarrow> int" where
  "count_completed tasks = int (length (filter t_completed tasks))"

text \<open>The exponent \<open>e\<close> of a positive rational \<open>x\<close>: \<open>2\<^sup>e \<le> x < 2\<^sup>e\<^sup>+\<^sup>1\<close>.\<close>

definition binade :: "rat \<Rightarrow> int" where
  "binade x =
     (let (p, q) = quotient_of x; k = bitlen p - bitlen q
      in if 2 powi k \<le> x then k else k - 1)"

definition roundHalfEven :: "rat \<Rightarrow> int" where
  "roundHalfEven q =
     (let n = \<lfloor>q\<rfloor>; r = q - of_int n
      in if r < 1 / 2 then n else if 1 / 2 < r then n + 1 else if even n then n else n + 1)"

definition fl :: "rat \<Rightarrow> rat" where
  "fl x =
     (if x = 0 then 0
      else (let u = 2 powi (binade \<bar>x\<bar> - 52)
            in sgn x * of_int (roundHalfEven (\<bar>x\<bar> / u)) * u))"

definition rate :: "Task list \<Rightarrow> rat" where
  \<comment> \<open>\<^verbatim>\<open>xs.length > 0 ? (completed / xs.length * 100) : 0\<close>\<close>
  "rate tasks =
     (if length tasks > 0
      then fl (fl (of_int (count_completed tasks) / of_int (int (length tasks))) * 100)
      else 0)"

definition Math_round :: "rat \<Rightarrow> int" where
  "Math_round x = \<lfloor>x + 1 / 2\<rfloor>"

record Summary =
  sm_total :: int
  sm_completed :: int
  sm_completionRate :: rat

definition summarize :: "Task list \<Rightarrow> Summary" where
  "summarize tasks = \<lparr> sm_total = int (length tasks), sm_completed = count_completed tasks,
                        sm_completionRate = rate tasks \<rparr>"

record Overview =
  totalTasks :: int
  completedTasks :: int
  pendingTasks :: int
  ov_completionRate :: rat
  overdueTasks :: int
  productiveDays :: int
  currentStreak :: int

record Report =
  overview :: Overview
  summary_today :: Summary
  summary_week :: Summary
  summary_month :: Summary
  rp_period :: string
  dateRange :: "int \<times> int"

definition isOverdue :: "string \<Rightarrow> Task \<Rightarrow> jsError + bool" where
  "isOverdue todayString task =
     (if t_completed task then Inr False
      else
        (case t_dueDate task of
           None \<Rightarrow> Inr False
         | Some DateNull \<Rightarrow> Inr False
         | Some (DateString d) \<Rightarrow> Inr (truthy d \<and> split_T d < todayString)
         | Some (DateObject t) \<Rightarrow> Inl TypeError))"

text \<open>\<^verbatim>\<open>xs.filter(p).length\<close> for a callback that may raise.\<close>

fun filter_length :: "('a \<Rightarrow> jsError + bool) \<Rightarrow> 'a list \<Rightarrow> jsError + int" where
  "filter_length p [] = Inr 0"
| "filter_length p (x # xs) =
     (case p x of
        Inl e \<Rightarrow> Inl e
      | Inr b \<Rightarrow>
          (case filter_length p xs of
             Inl e \<Rightarrow> Inl e
           | Inr n \<Rightarrow> Inr (if b then n + 1 else n)))"

definition report ::
  "TimeZone \<Rightarrow> int \<Rightarrow> Task list \<Rightarrow> string \<Rightarrow> string option \<Rightarrow> jsError + Report" where
  "report z now userTasks period categoryId =
     (let dates = getDateRange z now period;
          tasks = filter (baseFilter dates categoryId) userTasks;
          allUserTasks = userTasks;
          totalTasks' = int (length tasks);
          completedTasks' = count_completed tasks;
          pendingTasks' = totalTasks' - completedTasks';
          completionRate' = rate tasks;
          todayString = split_T (toISOString now)
      in case filter_length (isOverdue todayString) tasks of
           Inl e \<Rightarrow> Inl e
         | Inr overdueTasks' \<Rightarrow>
             (let productiveDays' =
                    int (length (remdups (map (\<lambda>task. toDateString z (t_updatedAt task))
                                            (filter t_completed tasks))));
                  currentStreak' = calculateStreak z now allUserTasks;
                  today = toDateString z now;
                  thisWeek = now - 7 * 24 * 60 * 60 * 1000;
                  thisMonth = now - 30 * 24 * 60 * 60 * 1000;
                  todayTasks = filter (\<lambda>task. toDateString z (t_createdAt task) = today) tasks;
                  weekTasks = filter (\<lambda>task. t_createdAt task \<ge> thisWeek) tasks;
                  monthTasks = filter (\<lambda>task. t_createdAt task \<ge> thisMonth) tasks
              in Inr \<lparr> overview =
                         \<lparr> totalTasks = totalTasks', completedTasks = completedTasks',
                           pendingTasks = pendingTasks',
                           ov_completionRate =
                             fl (of_int (Math_round (fl (completionRate' * 100))) / 100),
                           overdueTasks = overdueTasks', productiveDays = productiveDays',
                           currentStreak = currentStreak' \<rparr>,
                       summary_today = summarize todayTasks,
                       summary_week = summarize weekTasks,
                       summary_month = summarize monthTasks,
                       rp_period = period,
                       dateRange = dates \<rparr>))"

section \<open>Notions used in the properties, and example data\<close>

text \<open>
  What is required of a summary block: the completed count lies between 0 and the total
  (so that the pending count, total minus completed, is not negative), the rate lies
  between 0 and 100, and it is 0 for an empty block.
\<close>

definition summary_ok :: "Summary \<Rightarrow> bool" where
  "summary_ok s = (0 \<le> sm_completed s \<and> sm_completed s \<le> sm_total s \<and>
     0 \<le> sm_completionRate s \<and> sm_completionRate s \<le> 100 \<and>
     (sm_total s = 0 \<longrightarrow> sm_completionRate s = 0))"

text \<open>Three tasks for the examples below.\<close>

definition task1 :: Task where
  "task1 = \<lparr> t_completed = True, t_priority = ''LOW'', t_categoryId = None,
     t_dueDate = Some (DateString ''2025-08-20T00:00:00.000Z''), t_createdAt = 1755000000000,
     t_updatedAt = 1755100000000 \<rparr>"

definition task2 :: Task where
  "task2 = \<lparr> t_completed = False, t_priority = ''HIGH'', t_categoryId = None,
     t_dueDate = Some (DateString ''2025-08-21T00:00:00.000Z''), t_createdAt = 1755000000000,
     t_updatedAt = 1755000000000 \<rparr>"

definition task3 :: Task where
  "task3 = \<lparr> t_completed = False, t_priority = ''HIGH'', t_categoryId = None,
     t_dueDate = Some (DateString ''2025-08-19T00:00:00.000Z''), t_createdAt = 1755000000000,
     t_updatedAt = 1755000000000 \<rparr>"

text \<open>Two pending tasks due on 19 and 21 August 2025 and a completed one, asked about on 20 August.\<close>

definition dueTasks :: "Task list" where
  "dueTasks = [task1, task2, task3]"

text \<open>
  The days on which the user completed something, as \<^verbatim>\<open>calculateStreak\<close> reads them: the
  local day of the modification stamp of every completed task.
\<close>

definition completionDays :: "TimeZone \<Rightarrow> Task list \<Rightarrow> dateString set" where
  "completionDays z tasks =
     set (map (\<lambda>task. toDateString z (t_updatedAt task)) (filter t_completed tasks))"

text \<open>
  \<open>n\<close> is the length of the maximal run of consecutive days of \<open>S\<close> that ends at \<open>final\<close>:
  the \<open>n\<close> days up to \<open>final\<close> are in \<open>S\<close>, the day before them is not.
\<close>

definition maximal_run :: "dateString set \<Rightarrow> dateString \<Rightarrow> int \<Rightarrow> bool" where
  "maximal_run S final n = (0 \<le> n \<and> (\<forall>i \<in> {0..<n}. final - i \<in> S) \<and> final - n \<notin> S)"

text \<open>
  Five tasks without a due date, created on 31 July 2025: four completed on three
  consecutive days (two of them on the last one, 19 August), and one open.
\<close>

definition streakTasks :: "Task list" where
  "streakTasks =
     [\<lparr> t_completed = True, t_priority = ''LOW'', t_categoryId = None, t_dueDate = Some DateNull,
        t_createdAt = 1754000000000, t_updatedAt = 1755561600000 \<rparr>,
      \<lparr> t_completed = True, t_priority = ''LOW'', t_categoryId = None, t_dueDate = Some DateNull,
        t_createdAt = 1754000000000, t_updatedAt = 1755475200000 \<rparr>,
      \<lparr> t_completed = False, t_priority = ''LOW'', t_categoryId = None, t_dueDate = Some DateNull,
        t_createdAt = 1754000000000, t_updatedAt = 1755302400000 \<rparr>,
      \<lparr> t_completed = True, t_priority = ''LOW'', t_categoryId = None, t_dueDate = Some DateNull,
        t_createdAt = 1754000000000, t_updatedAt = 1755390000000 \<rparr>,
      \<lparr> t_completed = True, t_priority = ''LOW'', t_categoryId = None, t_dueDate = Some DateNull,
        t_createdAt = 1754000000000, t_updatedAt = 1755570000000 \<rparr>]"

text \<open>A task completed in New York at noon of Saturday, 1 November 2025.\<close>

definition novemberTask :: Task where
  "novemberTask = \<lparr> t_completed = True, t_priority = ''MEDIUM'', t_categoryId = None,
     t_dueDate = Some DateNull, t_createdAt = 1761926400000, t_updatedAt = 1762012800000 \<rparr>"

text \<open>
  The number of days of the calendar month before the local month of \<open>now\<close> (December,
  with 31 days, before a January).
\<close>

definition previousMonthLength :: "TimeZone \<Rightarrow> int \<Rightarrow> int" where
  "previousMonthLength z now =
     (let l = LocalTime z now; m = MonthFromTime l
      in if m = 0 then 31 else DaysInMonth (YearFromTime l) m)"

text \<open>
  The clocks of a zone are put forward at a local time of 23:00 or earlier: the hour
  that is skipped ends by midnight, so that no midnight lies inside it. It holds of
  every zone whose clocks never change.
\<close>

definition forwardBy23 :: "TimeZone \<Rightarrow> bool" where
  "forwardBy23 z =
     list_all (\<lambda>(a, b). TimeWithinDay (a + tz_standard z) \<le> 23 * msPerHour) (tz_summer z)"

text \<open>A calendar date: month 1 to 12, day 1 to the length of the month.\<close>

definition validDate :: "int \<Rightarrow> int \<Rightarrow> int \<Rightarrow> bool" where
  "validDate y m d = (1 \<le> m \<and> m \<le> 12 \<and> 1 \<le> d \<and> d \<le> DaysInMonth y m)"

section \<open>Properties of the schedule validators\<close>

lemma RoutineForm_errors_simps:
  "err_daysOfWeek (RoutineForm_errors f) =
     (if fd_recurrenceType f = WEEKLY \<and> fd_daysOfWeek f = []
      then Some ''Select at least one day for weekly routine'' else None)"
  "err_dayOfMonth (RoutineForm_errors f) =
     (if fd_recurrenceType f = MONTHLY \<and> (fd_dayOfMonth f < 1 \<or> fd_dayOfMonth f > 31)
      then Some ''Day of month must be between 1 and 31'' else None)"
  "err_interval (RoutineForm_errors f) =
     (if fd_recurrenceType f = CUSTOM \<and> fd_interval f < 1
      then Some ''Interval must be at least 1'' else None)"
  "err_title (RoutineForm_errors f) =
     (if truthy (trim (fd_title f)) then None else Some ''Title is required'')"
  "err_categoryId (RoutineForm_errors f) = None"
  "err_dueDate (RoutineForm_errors f) = None"
  "err_recurrenceType (RoutineForm_errors f) = None"
  "err_general (RoutineForm_errors f) = None"
  by (auto simp: RoutineForm_errors_def noErrors_def Let_def)

lemma AddTask_errors_simps:
  "err_daysOfWeek (AddTask_errors g) =
     (if at_taskType g = routine \<and> at_recurrenceType g = WEEKLY \<and> at_daysOfWeek g = []
      then Some ''Please select at least one day for weekly routines'' else None)"
  "err_dayOfMonth (AddTask_errors g) =
     (if at_taskType g = routine \<and> at_recurrenceType g = MONTHLY \<and>
         (at_dayOfMonth g < 1 \<or> at_dayOfMonth g > 31)
      then Some ''Day of month must be between 1 and 31'' else None)"
  "err_interval (AddTask_errors g) =
     (if at_taskType g = routine \<and> at_recurrenceType g = CUSTOM \<and> at_interval g < 1
      then Some ''Interval must be at least 1 day'' else None)"
  "err_title (AddTask_errors g) =
     (if truthy (trim (at_title g)) then None else Some ''Task title is required'')"
  "err_categoryId (AddTask_errors g) =
     (if truthy (at_categoryId g) then None else Some ''Please select a category'')"
  "err_dueDate (AddTask_errors g) =
     (if at_taskType g = scheduled \<and> \<not> truthy (at_dueDate g)
      then Some ''Due date is required for scheduled tasks'' else None)"
  "err_recurrenceType (AddTask_errors g) = None"
  "err_general (AddTask_errors g) = None"
  by (cases "at_taskType g"; cases "at_recurrenceType g"; simp add: AddTask_errors_def noErrors_def Let_def)+

text \<open>
  The four cases of schedule validation in the forms. Both form validators reject a
  weekly schedule without days, a monthly schedule on day 32 and a custom schedule with
  interval 0, each with the message of its own field, and accept a daily schedule
  whatever the other schedule fields hold (the routine form as soon as the title is not
  blank, the add-task page as soon as the title is not blank and a category is chosen).
\<close>

theorem form_validators_cases:
  "err_daysOfWeek (RoutineForm_errors (f\<lparr>fd_recurrenceType := WEEKLY, fd_daysOfWeek := []\<rparr>))
     = Some ''Select at least one day for weekly routine'' \<and>
   \<not> RoutineForm_validateForm (f\<lparr>fd_recurrenceType := WEEKLY, fd_daysOfWeek := []\<rparr>) \<and>
   err_dayOfMonth (RoutineForm_errors (f\<lparr>fd_recurrenceType := MONTHLY, fd_dayOfMonth := 32\<rparr>))
     = Some ''Day of month must be between 1 and 31'' \<and>
   \<not> RoutineForm_validateForm (f\<lparr>fd_recurrenceType := MONTHLY, fd_dayOfMonth := 32\<rparr>) \<and>
   err_interval (RoutineForm_errors (f\<lparr>fd_recurrenceType := CUSTOM, fd_interval := 0\<rparr>))
     = Some ''Interval must be at least 1'' \<and>
   \<not> RoutineForm_validateForm (f\<lparr>fd_recurrenceType := CUSTOM, fd_interval := 0\<rparr>) \<and>
   RoutineForm_validateForm (f\<lparr>fd_recurrenceType := DAILY\<rparr>) = truthy (trim (fd_title f)) \<and>
   err_daysOfWeek (AddTask_errors
       (g\<lparr>at_taskType := routine, at_recurrenceType := WEEKLY, at_daysOfWeek := []\<rparr>))
     = Some ''Please select at least one day for weekly routines'' \<and>
   \<not> AddTask_validateForm
       (g\<lparr>at_taskType := routine, at_recurrenceType := WEEKLY, at_daysOfWeek := []\<rparr>) \<and>
   err_dayOfMonth (AddTask_errors
       (g\<lparr>at_taskType := routine, at_recurrenceType := MONTHLY, at_dayOfMonth := 32\<rparr>))
     = Some ''Day of month must be between 1 and 31'' \<and>
   \<not> AddTask_validateForm
       (g\<lparr>at_taskType := routine, at_recurrenceType := MONTHLY, at_dayOfMonth := 32\<rparr>) \<and>
   err_interval (AddTask_errors
       (g\<lparr>at_taskType := routine, at_recurrenceType := CUSTOM, at_interval := 0\<rparr>))
     = Some ''Interval must be at least 1 day'' \<and>
   \<not> AddTask_validateForm
       (g\<lparr>at_taskType := routine, at_recurrenceType := CUSTOM, at_interval := 0\<rparr>) \<and>
   AddTask_validateForm (g\<lparr>at_taskType := routine, at_recurrenceType := DAILY\<rparr>)
     = (truthy (trim (at_title g)) \<and> truthy (at_categoryId g))"
  by (simp add: RoutineForm_validateForm_def AddTask_validateForm_def isEmptyErrors_def
      RoutineForm_errors_simps AddTask_errors_simps)

text \<open>
  The server-side chain repeats the range checks on the day of the month and on the
  interval, stops at the first failing link, and lets a daily schedule pass.
\<close>

lemma trim_example: "trim ''Water the plants'' = ''Water the plants''"
  by (simp add: trim_def isWhiteSpace_def)

lemma post_routine_range_checks:
  "post_routine cs (validRequest (dailySchedule\<lparr>rs_recurrenceType := Some ''MONTHLY'',
       rs_dayOfMonth := Some 32\<rparr>)) = Rejected 400 ''Day of month must be between 1 and 31''"
  "post_routine cs (validRequest (dailySchedule\<lparr>rs_recurrenceType := Some ''CUSTOM'',
       rs_interval := Some 0\<rparr>)) = Rejected 400 ''Interval must be at least 1''"
  "post_routine cs (validRequest dailySchedule) = Accepted (scheduleData dailySchedule)"
  by (simp_all add: post_routine_def post_validation_def validRequest_def dailySchedule_def
      required_def optional_def sched_def notEmpty_def isIn_def isInt_min_def
      isInt_min_max_def printsPlain_def isArray_def invalidCategory_def trim_example)

text \<open>
  C6. The schedule validation rejects a weekly schedule without days, as both forms do.
  The server-side chain does not: of the days of the week it only checks that they are
  an array, so the create handler and the update handler accept a weekly schedule whose
  array of days is empty, and store it.
\<close>

theorem server_accepts_weekly_without_days:
  "post_routine [] (validRequest (dailySchedule\<lparr>rs_recurrenceType := Some ''WEEKLY'',
       rs_daysOfWeek := Some []\<rparr>))
   = Accepted \<lparr> sd_recurrenceType = Some ''WEEKLY'', sd_interval = None,
       sd_daysOfWeek = Some [], sd_dayOfMonth = None, sd_time = None \<rparr> \<and>
   put_routine [] True (validRequest (dailySchedule\<lparr>rs_recurrenceType := Some ''WEEKLY'',
       rs_daysOfWeek := Some []\<rparr>))
   = Accepted \<lparr> sd_recurrenceType = Some ''WEEKLY'', sd_interval = None,
       sd_daysOfWeek = Some [], sd_dayOfMonth = None, sd_time = None \<rparr>"
  by (simp add: post_routine_def post_validation_def put_routine_def put_validation_def
      updateData_def validRequest_def dailySchedule_def
      required_def optional_def sched_def notEmpty_def isIn_def isInt_min_def
      isInt_min_max_def printsPlain_def isArray_def invalidCategory_def trim_example scheduleData_def
      truthyNum_def truthyStr_def truthy_def)

text \<open>
  C8 as stated fails: no validator reads the time of a schedule. A daily routine whose time
  is \<^verbatim>\<open>25:99\<close> is accepted by the create handler, and the string is stored as it is.
\<close>

theorem time_not_validated_counterexample:
  "post_routine [] (validRequest (dailySchedule\<lparr>rs_time := Some ''25:99''\<rparr>))
   = Accepted \<lparr> sd_recurrenceType = Some ''DAILY'', sd_interval = None,
       sd_daysOfWeek = None, sd_dayOfMonth = None, sd_time = Some ''25:99'' \<rparr>"
  by (simp add: post_routine_def post_validation_def validRequest_def dailySchedule_def
      required_def optional_def sched_def notEmpty_def isIn_def isInt_min_def
      isInt_min_max_def printsPlain_def isArray_def invalidCategory_def trim_example scheduleData_def
      truthyNum_def truthyStr_def truthy_def)

text \<open>
  C8, amended: the messages of both server-side chains and the verdicts of both forms do
  not depend on the time of the schedule, and the create and update handlers store every
  non-empty time string unchanged.
\<close>

theorem time_is_not_inspected:
  "post_validation (req\<lparr>rq_schedule := Some (s\<lparr>rs_time := t\<rparr>)\<rparr>)
     = post_validation (req\<lparr>rq_schedule := Some s\<rparr>) \<and>
   put_validation (req\<lparr>rq_schedule := Some (s\<lparr>rs_time := t\<rparr>)\<rparr>)
     = put_validation (req\<lparr>rq_schedule := Some s\<rparr>) \<and>
   sd_time (scheduleData (s\<lparr>rs_time := t\<rparr>)) = truthyStr t \<and>
   sd_time (updateData (Some (s\<lparr>rs_time := t\<rparr>))) = truthyStr t \<and>
   RoutineForm_validateForm (f\<lparr>fd_time := u\<rparr>) = RoutineForm_validateForm f \<and>
   AddTask_validateForm (g\<lparr>at_time := u\<rparr>) = AddTask_validateForm g"
  by (simp add: post_validation_def put_validation_def sched_def scheduleData_def
      updateData_def RoutineForm_validateForm_def AddTask_validateForm_def
      RoutineForm_errors_simps AddTask_errors_simps isEmptyErrors_def)

section \<open>Calendar arithmetic\<close>

lemma div_succ:
  fixes x n :: int
  assumes "0 < n"
  shows "(x + 1) div n = x div n + (if (x + 1) mod n = 0 then 1 else 0)"
proof -
  define q where "q = x div n"
  define r where "r = x mod n"
  have x: "x = n * q + r" unfolding q_def r_def by simp
  have r0: "0 \<le> r" and rn: "r < n" unfolding r_def using assms by simp_all
  show ?thesis
  proof (cases "r + 1 = n")
    case True
    then have e: "x + 1 = n * (q + 1)" using x by (simp add: algebra_simps)
    have "(x + 1) div n = q + 1" using e assms by simp
    moreover have "(x + 1) mod n = 0" using e by simp
    ultimately show ?thesis unfolding q_def by simp
  next
    case False
    then have lt: "r + 1 < n" using rn by simp
    have e: "x + 1 = n * q + (r + 1)" using x by simp
    have d: "(x + 1) div n = q"
      using e lt r0 by (intro int_div_pos_eq [where r = "r + 1"]) simp_all
    have m: "(x + 1) mod n = r + 1"
      using e lt r0 by (intro int_mod_pos_eq [where q = q]) simp_all
    show ?thesis using d m r0 unfolding q_def by simp
  qed
qed

lemma div_bounds:
  fixes x n :: int
  assumes "0 < n"
  shows "n * (x div n) \<le> x" and "x - n + 1 \<le> n * (x div n)"
proof -
  have "x = n * (x div n) + x mod n" by simp
  moreover have "0 \<le> x mod n" "x mod n < n" using assms by simp_all
  ultimately show "n * (x div n) \<le> x" and "x - n + 1 \<le> n * (x div n)" by linarith+
qed

lemma leap_step4:
  "(y + 1 - 1969) div 4 = (y - 1969) div 4 + (if y mod 4 = 0 then 1 else 0)" for y :: int
proof -
  have "(y - 1969 + 1) mod 4 = (y + (- 492) * 4) mod 4" by simp
  also have "\<dots> = y mod 4" by (rule mod_mult_self1)
  finally show ?thesis using div_succ [of 4 "y - 1969"] by (simp add: algebra_simps)
qed

lemma leap_step100:
  "(y + 1 - 1901) div 100 = (y - 1901) div 100 + (if y mod 100 = 0 then 1 else 0)" for y :: int
proof -
  have "(y - 1901 + 1) mod 100 = (y + (- 19) * 100) mod 100" by simp
  also have "\<dots> = y mod 100" by (rule mod_mult_self1)
  finally show ?thesis using div_succ [of 100 "y - 1901"] by (simp add: algebra_simps)
qed

lemma leap_step400:
  "(y + 1 - 1601) div 400 = (y - 1601) div 400 + (if y mod 400 = 0 then 1 else 0)" for y :: int
proof -
  have "(y - 1601 + 1) mod 400 = (y + (- 4) * 400) mod 400" by simp
  also have "\<dots> = y mod 400" by (rule mod_mult_self1)
  finally show ?thesis using div_succ [of 400 "y - 1601"] by (simp add: algebra_simps)
qed

lemma mod_100_4: "y mod 100 = 0 \<Longrightarrow> y mod 4 = 0" for y :: int
proof -
  assume "y mod 100 = 0"
  then have "100 dvd y" by (simp add: mod_eq_0_iff_dvd)
  moreover have "(4::int) dvd 100" by simp
  ultimately have "4 dvd y" by (rule dvd_trans [rotated])
  then show ?thesis by (simp add: mod_eq_0_iff_dvd)
qed

lemma mod_400_100: "y mod 400 = 0 \<Longrightarrow> y mod 100 = 0" for y :: int
proof -
  assume "y mod 400 = 0"
  then have "400 dvd y" by (simp add: mod_eq_0_iff_dvd)
  moreover have "(100::int) dvd 400" by simp
  ultimately have "100 dvd y" by (rule dvd_trans [rotated])
  then show ?thesis by (simp add: mod_eq_0_iff_dvd)
qed

lemma DayFromYear_Suc: "DayFromYear (y + 1) = DayFromYear y + DaysInYear y"
  unfolding DayFromYear_def DaysInYear_def leap_step4 leap_step100 leap_step400
  using mod_100_4 [of y] mod_400_100 [of y] by auto

lemma leapDays_range: "leapDays y = 0 \<or> leapDays y = 1"
  by (simp add: leapDays_def DaysInYear_def)

lemma Day_fields:
  "Day t = DayFromYear (YearFromTime t) + monthStart (InLeapYear t) (MonthFromTime t)
           + DateFromTime t - 1"
  by (simp add: DateFromTime_def DayWithinYear_def)

lemma MonthFromTime_cases:
  "MonthFromTime t \<in> {0, 1, 2, 3, 4, 5, 6, 7, 8, 9, 10, 11}"
  by (simp add: MonthFromTime_def monthOfDay_def)

lemma DaysInMonth_range:
  assumes "m \<in> {1, 2, 3, 4, 5, 6, 7, 8, 9, 10, 11, 12}"
  shows "28 \<le> DaysInMonth y m \<and> DaysInMonth y m \<le> 31"
  using assms leapDays_range [of y]
  by (auto simp: DaysInMonth_def monthStart_def)

text \<open>The year of a day is the largest year that starts on or before it.\<close>

lemma DayFromYear_lower: "146097 * (y - 1970) - 506 \<le> 400 * DayFromYear y"
proof -
  define A where "A = (y - 1969) div 4"
  define B where "B = (y - 1901) div 100"
  define C where "C = (y - 1601) div 400"
  have a: "y - 1972 \<le> 4 * A" unfolding A_def using div_bounds(2) [of 4 "y - 1969"] by simp
  have b: "100 * B \<le> y - 1901" unfolding B_def using div_bounds(1) [of 100 "y - 1901"] by simp
  have c: "y - 2000 \<le> 400 * C" unfolding C_def using div_bounds(2) [of 400 "y - 1601"] by simp
  have d: "DayFromYear y = 365 * (y - 1970) + A - B + C"
    unfolding DayFromYear_def A_def B_def C_def by simp
  have "100 * (y - 1972) \<le> 100 * (4 * A)" using a by (rule mult_left_mono) simp
  moreover have "4 * (100 * B) \<le> 4 * (y - 1901)" using b by (rule mult_left_mono) simp
  ultimately show ?thesis using c d by (simp add: algebra_simps)
qed

lemma DayFromYear_upper: "400 * DayFromYear y \<le> 146097 * (y - 1970) + 589"
proof -
  define A where "A = (y - 1969) div 4"
  define B where "B = (y - 1901) div 100"
  define C where "C = (y - 1601) div 400"
  have a: "4 * A \<le> y - 1969" unfolding A_def using div_bounds(1) [of 4 "y - 1969"] by simp
  have b: "y - 2000 \<le> 100 * B" unfolding B_def using div_bounds(2) [of 100 "y - 1901"] by simp
  have c: "400 * C \<le> y - 1601" unfolding C_def using div_bounds(1) [of 400 "y - 1601"] by simp
  have d: "DayFromYear y = 365 * (y - 1970) + A - B + C"
    unfolding DayFromYear_def A_def B_def C_def by simp
  have "100 * (4 * A) \<le> 100 * (y - 1969)" using a by (rule mult_left_mono) simp
  moreover have "4 * (y - 2000) \<le> 4 * (100 * B)" using b by (rule mult_left_mono) simp
  ultimately show ?thesis using c d by (simp add: algebra_simps)
qed

lemma YearFromDay_correct:
  "DayFromYear (YearFromDay d) \<le> d \<and> d < DayFromYear (YearFromDay d + 1)"
proof -
  define Q where "Q = (400 * d) div 146097"
  define y where "y = 1970 + Q"
  have lo: "146097 * Q \<le> 400 * d"
    unfolding Q_def using div_bounds(1) [of 146097 "400 * d"] by simp
  have hi: "400 * d - 146096 \<le> 146097 * Q"
    unfolding Q_def using div_bounds(2) [of 146097 "400 * d"] by simp
  have "400 * DayFromYear (y - 1) \<le> 146097 * (Q - 1) + 589"
    using DayFromYear_upper [of "y - 1"] unfolding y_def by simp
  then have "400 * DayFromYear (y - 1) \<le> 400 * d" using lo by (simp add: algebra_simps)
  then have p: "DayFromYear (y - 1) \<le> d" by simp
  have "146097 * (Q + 2) - 506 \<le> 400 * DayFromYear (y + 1 + 1)"
    using DayFromYear_lower [of "y + 1 + 1"] unfolding y_def by simp
  then have "400 * d < 400 * DayFromYear (y + 1 + 1)" using hi by (simp add: algebra_simps)
  then have q: "d < DayFromYear (y + 1 + 1)" by simp
  have "YearFromDay d = (if d < DayFromYear y then y - 1
         else if DayFromYear (y + 1) \<le> d then y + 1 else y)"
    unfolding YearFromDay_def y_def Q_def Let_def by simp
  then show ?thesis using p q by auto
qed

lemma DayWithinYear_range:
  "0 \<le> DayWithinYear t \<and> DayWithinYear t < 365 + InLeapYear t"
  using YearFromDay_correct [of "Day t"] DayFromYear_Suc [of "YearFromTime t"]
  by (simp add: DayWithinYear_def YearFromTime_def InLeapYear_def leapDays_def)

lemma monthOfDay_bounds:
  assumes "l = 0 \<or> l = 1" "0 \<le> d" "d < 365 + l"
  shows "monthStart l (monthOfDay l d) \<le> d \<and> d < monthStart l (monthOfDay l d + 1)"
  using assms by (auto simp: monthOfDay_def monthStart_def)

lemma fields_valid: "validDate (YearFromTime t) (MonthFromTime t + 1) (DateFromTime t)"
proof -
  have l: "InLeapYear t = 0 \<or> InLeapYear t = 1"
    using leapDays_range [of "YearFromTime t"] by (simp add: InLeapYear_def)
  have r: "0 \<le> DayWithinYear t" "DayWithinYear t < 365 + InLeapYear t"
    using DayWithinYear_range [of t] by simp_all
  have b: "monthStart (InLeapYear t) (MonthFromTime t) \<le> DayWithinYear t"
    "DayWithinYear t < monthStart (InLeapYear t) (MonthFromTime t + 1)"
    using monthOfDay_bounds [OF l r] by (simp_all add: MonthFromTime_def)
  have m: "0 \<le> MonthFromTime t" "MonthFromTime t \<le> 11"
    using monthOfDay_range [of "InLeapYear t" "DayWithinYear t"] by (simp_all add: MonthFromTime_def)
  show ?thesis
    using b m by (simp add: validDate_def DateFromTime_def DaysInMonth_def InLeapYear_def)
qed

text \<open>The day number of a calendar date, and its order.\<close>

lemma MakeDay_month:
  assumes "1 \<le> m" "m \<le> 12"
  shows "MakeDay y (m - 1) d = DayFromYear y + monthStart (leapDays y) (m - 1) + d - 1"
proof -
  have "(m - 1) div 12 = 0" "(m - 1) mod 12 = m - 1" using assms by auto
  then show ?thesis by (simp add: MakeDay_def Let_def)
qed

lemma monthStart_step:
  assumes "l = 0 \<or> l = 1" "0 \<le> a" "a \<le> 11"
  shows "monthStart l a \<le> monthStart l (a + 1)"
proof -
  have "a \<in> {0, 1, 2, 3, 4, 5, 6, 7, 8, 9, 10, 11}" using assms by simp presburger
  then show ?thesis using assms(1) by (auto simp: monthStart_def)
qed

lemma monthStart_mono:
  assumes "l = 0 \<or> l = 1" "0 \<le> a" "a \<le> b" "b \<le> 12"
  shows "monthStart l a \<le> monthStart l b"
  using assms(3,4)
proof (induction b rule: int_ge_induct)
  case base
  then show ?case by simp
next
  case (step i)
  then have "monthStart l i \<le> monthStart l (i + 1)"
    using assms(1,2) by (intro monthStart_step) simp_all
  then show ?case using step by simp
qed

lemma DayFromYear_mono: "y1 \<le> y2 \<Longrightarrow> DayFromYear y1 \<le> DayFromYear y2"
proof (induction y2 rule: int_ge_induct)
  case base
  then show ?case by simp
next
  case (step i)
  have "0 \<le> DaysInYear i" by (simp add: DaysInYear_def)
  then show ?case using step DayFromYear_Suc [of i] by simp
qed

lemma MakeDay_within_year:
  assumes "validDate y m d"
  shows "DayFromYear y \<le> MakeDay y (m - 1) d \<and> MakeDay y (m - 1) d < DayFromYear (y + 1)"
proof -
  have v: "1 \<le> m" "m \<le> 12" "1 \<le> d" "d \<le> monthStart (leapDays y) m - monthStart (leapDays y) (m - 1)"
    using assms by (simp_all add: validDate_def DaysInMonth_def)
  have l: "leapDays y = 0 \<or> leapDays y = 1" by (rule leapDays_range)
  have "0 \<le> monthStart (leapDays y) (m - 1)"
    using monthStart_mono [OF l, of 0 "m - 1"] v by (simp add: monthStart_def)
  moreover have "monthStart (leapDays y) m \<le> 365 + leapDays y"
    using monthStart_mono [OF l, of m 12] v by (simp add: monthStart_def)
  ultimately show ?thesis
    using v DayFromYear_Suc [of y] by (simp add: MakeDay_month leapDays_def)
qed

lemma MakeDay_less:
  assumes "validDate y1 m1 d1" "validDate y2 m2 d2"
  shows "MakeDay y1 (m1 - 1) d1 < MakeDay y2 (m2 - 1) d2
         \<longleftrightarrow> y1 < y2 \<or> (y1 = y2 \<and> (m1 < m2 \<or> (m1 = m2 \<and> d1 < d2)))"
proof -
  have v1: "1 \<le> m1" "m1 \<le> 12" "1 \<le> d1"
      "d1 \<le> monthStart (leapDays y1) m1 - monthStart (leapDays y1) (m1 - 1)"
    using assms(1) by (simp_all add: validDate_def DaysInMonth_def)
  have v2: "1 \<le> m2" "m2 \<le> 12" "1 \<le> d2"
      "d2 \<le> monthStart (leapDays y2) m2 - monthStart (leapDays y2) (m2 - 1)"
    using assms(2) by (simp_all add: validDate_def DaysInMonth_def)
  have years: "MakeDay ya (ma - 1) da < MakeDay yb (mb - 1) db"
    if "ya < yb" "validDate ya ma da" "validDate yb mb db" for ya ma da yb mb db
  proof -
    have "MakeDay ya (ma - 1) da < DayFromYear (ya + 1)"
      using MakeDay_within_year [OF that(2)] by simp
    also have "\<dots> \<le> DayFromYear yb" using that(1) by (intro DayFromYear_mono) simp
    also have "\<dots> \<le> MakeDay yb (mb - 1) db" using MakeDay_within_year [OF that(3)] by simp
    finally show ?thesis .
  qed
  have months: "MakeDay y (ma - 1) da < MakeDay y (mb - 1) db"
    if "ma < mb" "validDate y ma da" "validDate y mb db" for y ma da mb db
  proof -
    have a: "1 \<le> ma" "ma \<le> 12" "da \<le> monthStart (leapDays y) ma - monthStart (leapDays y) (ma - 1)"
      using that(2) by (simp_all add: validDate_def DaysInMonth_def)
    have b: "1 \<le> mb" "mb \<le> 12" "1 \<le> db"
      using that(3) by (simp_all add: validDate_def)
    have "monthStart (leapDays y) ma \<le> monthStart (leapDays y) (mb - 1)"
      using that(1) a b by (intro monthStart_mono leapDays_range) simp_all
    then show ?thesis using a b by (simp add: MakeDay_month)
  qed
  consider "y1 < y2" | "y2 < y1" | "y1 = y2" "m1 < m2" | "y1 = y2" "m2 < m1" | "y1 = y2" "m1 = m2"
    by linarith
  then show ?thesis
  proof cases
    case 1
    then show ?thesis using years [OF 1 assms] by simp
  next
    case 2
    then show ?thesis using years [OF 2 assms(2,1)] by simp
  next
    case 3
    then show ?thesis using months [of m1 m2 y2 d1 d2] assms by simp
  next
    case 4
    then show ?thesis using months [of m2 m1 y2 d2 d1] assms by simp
  next
    case 5
    then show ?thesis using v1 v2 by (simp add: MakeDay_month)
  qed
qed

lemma MakeDay_eq:
  assumes "validDate y1 m1 d1" "validDate y2 m2 d2"
  shows "MakeDay y1 (m1 - 1) d1 = MakeDay y2 (m2 - 1) d2 \<longleftrightarrow> y1 = y2 \<and> m1 = m2 \<and> d1 = d2"
  using MakeDay_less [OF assms] MakeDay_less [OF assms(2,1)] by auto

section \<open>Digits and padded numbers in the order of strings\<close>

lemma of_char_digit: "0 \<le> a \<Longrightarrow> a \<le> 9 \<Longrightarrow> (of_char (digit a) :: int) = 48 + a"
  by (simp add: digit_def)

lemma char_less_int: "c < d \<longleftrightarrow> (of_char c :: int) < of_char d" for c d :: char
proof -
  have "(of_char c :: int) = int (of_char c)" "(of_char d :: int) = int (of_char d)"
    by (simp_all only: of_nat_of_char)
  then show ?thesis by (simp add: less_char_def)
qed

lemma digit_less:
  "0 \<le> a \<Longrightarrow> a \<le> 9 \<Longrightarrow> 0 \<le> b \<Longrightarrow> b \<le> 9 \<Longrightarrow> digit a < digit b \<longleftrightarrow> a < b"
  by (simp add: char_less_int of_char_digit)

lemma digit_eq:
  assumes "0 \<le> a" "a \<le> 9" "0 \<le> b" "b \<le> 9"
  shows "digit a = digit b \<longleftrightarrow> a = b"
proof
  assume "digit a = digit b"
  then have "(of_char (digit a) :: int) = of_char (digit b)" by simp
  then show "a = b" using assms by (simp add: of_char_digit)
qed simp

lemma digit_not_T: "0 \<le> a \<Longrightarrow> a \<le> 9 \<Longrightarrow> digit a \<noteq> CHR ''T''"
proof
  assume a: "0 \<le> a" "a \<le> 9" and "digit a = CHR ''T''"
  then have "(of_char (digit a) :: int) = of_char (CHR ''T'')" by simp
  then show False using a by (simp add: of_char_digit)
qed

lemma digitVal_digit: "0 \<le> a \<Longrightarrow> a \<le> 9 \<Longrightarrow> digitVal (digit a) = Some a"
proof -
  assume a: "0 \<le> a" "a \<le> 9"
  have "CHR ''0'' \<le> digit a \<longleftrightarrow> \<not> digit a < CHR ''0''" by auto
  moreover have "\<not> digit a < CHR ''0''" using a by (simp add: char_less_int of_char_digit)
  moreover have "digit a \<le> CHR ''9'' \<longleftrightarrow> \<not> CHR ''9'' < digit a" by auto
  moreover have "\<not> CHR ''9'' < digit a" using a by (simp add: char_less_int of_char_digit)
  ultimately show ?thesis using a by (simp add: digitVal_def of_char_digit)
qed

text \<open>Comparing two numbers place by place.\<close>

lemma lex_div_mod:
  fixes a b n :: int
  assumes "0 < n"
  shows "(a div n < b div n \<or> (a div n = b div n \<and> a mod n < b mod n)) \<longleftrightarrow> a < b"
proof -
  have a: "a = n * (a div n) + a mod n" and b: "b = n * (b div n) + b mod n" by simp_all
  have ra: "0 \<le> a mod n" "a mod n < n" and rb: "0 \<le> b mod n" "b mod n < n"
    using assms by simp_all
  show ?thesis
  proof (cases "a div n < b div n")
    case True
    then have "a div n + 1 \<le> b div n" by simp
    then have "n * (a div n + 1) \<le> n * (b div n)" using assms by (simp only: mult_le_cancel_left_pos)
    then have "n * (a div n) + n \<le> n * (b div n)" by (simp add: algebra_simps)
    then have "a < b" using a b ra rb by linarith
    then show ?thesis using True by simp
  next
    case False
    show ?thesis
    proof (cases "a div n = b div n")
      case True
      then have "a < b \<longleftrightarrow> a mod n < b mod n" using a b by (metis add_less_cancel_left)
      then show ?thesis using True by simp
    next
      case False
      with \<open>\<not> a div n < b div n\<close> have "b div n + 1 \<le> a div n" by simp
      then have "n * (b div n + 1) \<le> n * (a div n)" using assms by (simp only: mult_le_cancel_left_pos)
      then have "n * (b div n) + n \<le> n * (a div n)" by (simp add: algebra_simps)
      then have "b < a" using a b ra rb by linarith
      then show ?thesis using False \<open>\<not> a div n < b div n\<close> by simp
    qed
  qed
qed

lemma eq_div_mod:
  fixes a b n :: int
  shows "(a div n = b div n \<and> a mod n = b mod n) \<longleftrightarrow> a = b"
  by (metis mult_div_mod_eq)

lemma small_div:
  fixes a :: int
  assumes "0 \<le> a" "a \<le> 99"
  shows "0 \<le> a div 10 \<and> a div 10 \<le> 9 \<and> a div 10 mod 10 = a div 10 \<and> 0 \<le> a mod 10 \<and> a mod 10 \<le> 9"
  using assms by auto

lemma pad2_digits:
  assumes "0 \<le> a" "a \<le> 99"
  shows "pad2 a = [digit (a div 10), digit (a mod 10)]"
  using small_div [OF assms] by (simp add: pad2_def)

lemma pad2_less:
  assumes "0 \<le> a" "a \<le> 99" "0 \<le> b" "b \<le> 99"
  shows "pad2 a < pad2 b \<longleftrightarrow> a < b"
proof -
  define a1 a0 b1 b0 where "a1 = a div 10" and "a0 = a mod 10" and "b1 = b div 10"
    and "b0 = b mod 10"
  have r: "0 \<le> a1" "a1 \<le> 9" "0 \<le> a0" "a0 \<le> 9" "0 \<le> b1" "b1 \<le> 9" "0 \<le> b0" "b0 \<le> 9"
    using small_div [OF assms(1,2)] small_div [OF assms(3,4)]
    unfolding a1_def a0_def b1_def b0_def by simp_all
  have "pad2 a < pad2 b \<longleftrightarrow> [digit a1, digit a0] < [digit b1, digit b0]"
    unfolding a1_def a0_def b1_def b0_def
    by (simp only: pad2_digits [OF assms(1,2)] pad2_digits [OF assms(3,4)])
  also have "\<dots> \<longleftrightarrow> digit a1 < digit b1 \<or> (digit a1 = digit b1 \<and> digit a0 < digit b0)"
    by simp
  also have "\<dots> \<longleftrightarrow> a1 < b1 \<or> (a1 = b1 \<and> a0 < b0)"
    by (simp only: digit_less [OF r(1,2,5,6)] digit_less [OF r(3,4,7,8)] digit_eq [OF r(1,2,5,6)])
  also have "\<dots> \<longleftrightarrow> a < b"
    unfolding a1_def a0_def b1_def b0_def by (rule lex_div_mod) simp
  finally show ?thesis .
qed

lemma pad2_eq:
  assumes "0 \<le> a" "a \<le> 99" "0 \<le> b" "b \<le> 99"
  shows "pad2 a = pad2 b \<longleftrightarrow> a = b"
proof -
  define a1 a0 b1 b0 where "a1 = a div 10" and "a0 = a mod 10" and "b1 = b div 10"
    and "b0 = b mod 10"
  have r: "0 \<le> a1" "a1 \<le> 9" "0 \<le> a0" "a0 \<le> 9" "0 \<le> b1" "b1 \<le> 9" "0 \<le> b0" "b0 \<le> 9"
    using small_div [OF assms(1,2)] small_div [OF assms(3,4)]
    unfolding a1_def a0_def b1_def b0_def by simp_all
  have "pad2 a = pad2 b \<longleftrightarrow> [digit a1, digit a0] = [digit b1, digit b0]"
    unfolding a1_def a0_def b1_def b0_def
    by (simp only: pad2_digits [OF assms(1,2)] pad2_digits [OF assms(3,4)])
  also have "\<dots> \<longleftrightarrow> digit a1 = digit b1 \<and> digit a0 = digit b0"
    by simp
  also have "\<dots> \<longleftrightarrow> a1 = b1 \<and> a0 = b0"
    by (simp only: digit_eq [OF r(1,2,5,6)] digit_eq [OF r(3,4,7,8)])
  also have "\<dots> \<longleftrightarrow> a = b"
    unfolding a1_def a0_def b1_def b0_def by (rule eq_div_mod)
  finally show ?thesis .
qed

lemma div_100_10: "n div 100 div 10 = n div 1000" for n :: int
proof -
  have "n div (100 * 10) = n div 100 div 10" by (rule zdiv_zmult2_eq) simp
  then show ?thesis by simp
qed

lemma mod_100_div_10: "n mod 100 div 10 = n div 10 mod 10" for n :: int
proof -
  have "n mod (10 * 10) = 10 * (n div 10 mod 10) + n mod 10" by (rule zmod_zmult2_eq) simp
  then have "n mod 100 div 10 = (10 * (n div 10 mod 10) + n mod 10) div 10" by simp
  also have "\<dots> = n div 10 mod 10 + n mod 10 div 10" by (rule div_mult_self4) simp
  also have "n mod 10 div 10 = 0" by (rule div_pos_pos_trivial) simp_all
  finally show ?thesis by simp
qed

lemma mod_100_mod_10: "n mod 100 mod 10 = n mod 10" for n :: int
  by (rule mod_mod_cancel) simp

lemma pad4_pad2: "pad4 n = pad2 (n div 100) @ pad2 (n mod 100)"
  unfolding pad4_def pad2_def div_100_10 mod_100_div_10 mod_100_mod_10
  by (simp only: mod_mod_trivial append.simps)

lemma less_append_same_length:
  fixes xs ys us vs :: "'a::linorder list"
  assumes "length xs = length ys"
  shows "xs @ us < ys @ vs \<longleftrightarrow> xs < ys \<or> (xs = ys \<and> us < vs)"
  using assms by (induction xs ys rule: list_induct2) auto

lemma length_pad2: "length (pad2 n) = 2"
  by (simp add: pad2_def)

lemma hundreds:
  fixes a :: int
  assumes "0 \<le> a" "a \<le> 9999"
  shows "0 \<le> a div 100 \<and> a div 100 \<le> 99 \<and> 0 \<le> a mod 100 \<and> a mod 100 \<le> 99"
  using assms by auto

lemma pad4_less:
  assumes "0 \<le> a" "a \<le> 9999" "0 \<le> b" "b \<le> 9999"
  shows "pad4 a < pad4 b \<longleftrightarrow> a < b"
proof -
  define a1 a0 b1 b0 where "a1 = a div 100" and "a0 = a mod 100" and "b1 = b div 100"
    and "b0 = b mod 100"
  have r: "0 \<le> a1" "a1 \<le> 99" "0 \<le> a0" "a0 \<le> 99" "0 \<le> b1" "b1 \<le> 99" "0 \<le> b0" "b0 \<le> 99"
    using hundreds [OF assms(1,2)] hundreds [OF assms(3,4)]
    unfolding a1_def a0_def b1_def b0_def by simp_all
  have "pad4 a < pad4 b \<longleftrightarrow> pad2 a1 @ pad2 a0 < pad2 b1 @ pad2 b0"
    unfolding a1_def a0_def b1_def b0_def by (simp only: pad4_pad2)
  also have "\<dots> \<longleftrightarrow> pad2 a1 < pad2 b1 \<or> (pad2 a1 = pad2 b1 \<and> pad2 a0 < pad2 b0)"
    by (rule less_append_same_length) (simp add: length_pad2)
  also have "\<dots> \<longleftrightarrow> a1 < b1 \<or> (a1 = b1 \<and> a0 < b0)"
    by (simp only: pad2_less [OF r(1,2,5,6)] pad2_less [OF r(3,4,7,8)] pad2_eq [OF r(1,2,5,6)])
  also have "\<dots> \<longleftrightarrow> a < b"
    unfolding a1_def a0_def b1_def b0_def by (rule lex_div_mod) simp
  finally show ?thesis .
qed

lemma pad4_eq:
  assumes "0 \<le> a" "a \<le> 9999" "0 \<le> b" "b \<le> 9999"
  shows "pad4 a = pad4 b \<longleftrightarrow> a = b"
proof -
  define a1 a0 b1 b0 where "a1 = a div 100" and "a0 = a mod 100" and "b1 = b div 100"
    and "b0 = b mod 100"
  have r: "0 \<le> a1" "a1 \<le> 99" "0 \<le> a0" "a0 \<le> 99" "0 \<le> b1" "b1 \<le> 99" "0 \<le> b0" "b0 \<le> 99"
    using hundreds [OF assms(1,2)] hundreds [OF assms(3,4)]
    unfolding a1_def a0_def b1_def b0_def by simp_all
  have "pad4 a = pad4 b \<longleftrightarrow> pad2 a1 @ pad2 a0 = pad2 b1 @ pad2 b0"
    unfolding a1_def a0_def b1_def b0_def by (simp only: pad4_pad2)
  also have "\<dots> \<longleftrightarrow> pad2 a1 = pad2 b1 \<and> pad2 a0 = pad2 b0"
    by (rule append_eq_append_conv) (simp add: length_pad2)
  also have "\<dots> \<longleftrightarrow> a1 = b1 \<and> a0 = b0"
    by (simp only: pad2_eq [OF r(1,2,5,6)] pad2_eq [OF r(3,4,7,8)])
  also have "\<dots> \<longleftrightarrow> a = b"
    unfolding a1_def a0_def b1_def b0_def by (rule eq_div_mod)
  finally show ?thesis .
qed

section \<open>Properties of the status classifier\<close>

lemma length_pad4: "length (pad4 n) = 4"
  by (simp add: pad4_def)

lemma isoDate_4digit:
  "0 \<le> y \<Longrightarrow> y \<le> 9999 \<Longrightarrow>
   isoDate y m d = pad4 y @ CHR ''-'' # pad2 m @ CHR ''-'' # pad2 d"
  by (simp add: isoDate_def isoYear_def)

lemma isoDate_less:
  assumes "0 \<le> y1" "y1 \<le> 9999" "0 \<le> y2" "y2 \<le> 9999"
    and "0 \<le> m1" "m1 \<le> 99" "0 \<le> m2" "m2 \<le> 99"
    and "0 \<le> d1" "d1 \<le> 99" "0 \<le> d2" "d2 \<le> 99"
  shows "isoDate y1 m1 d1 < isoDate y2 m2 d2
         \<longleftrightarrow> y1 < y2 \<or> (y1 = y2 \<and> (m1 < m2 \<or> (m1 = m2 \<and> d1 < d2)))"
proof -
  have days: "CHR ''-'' # pad2 d1 < CHR ''-'' # pad2 d2 \<longleftrightarrow> d1 < d2"
    using pad2_less [OF assms(9-12)] by simp
  have "pad2 m1 @ CHR ''-'' # pad2 d1 < pad2 m2 @ CHR ''-'' # pad2 d2
        \<longleftrightarrow> pad2 m1 < pad2 m2 \<or> (pad2 m1 = pad2 m2 \<and> CHR ''-'' # pad2 d1 < CHR ''-'' # pad2 d2)"
    by (rule less_append_same_length) (simp add: length_pad2)
  then have months: "CHR ''-'' # pad2 m1 @ CHR ''-'' # pad2 d1 < CHR ''-'' # pad2 m2 @ CHR ''-'' # pad2 d2
        \<longleftrightarrow> m1 < m2 \<or> (m1 = m2 \<and> d1 < d2)"
    using pad2_less [OF assms(5-8)] pad2_eq [OF assms(5-8)] days by simp
  have "isoDate y1 m1 d1 < isoDate y2 m2 d2
        \<longleftrightarrow> pad4 y1 < pad4 y2 \<or> (pad4 y1 = pad4 y2 \<and>
             CHR ''-'' # pad2 m1 @ CHR ''-'' # pad2 d1 < CHR ''-'' # pad2 m2 @ CHR ''-'' # pad2 d2)"
    unfolding isoDate_4digit [OF assms(1,2)] isoDate_4digit [OF assms(3,4)]
    by (rule less_append_same_length) (simp add: length_pad4)
  then show ?thesis
    using pad4_less [OF assms(1-4)] pad4_eq [OF assms(1-4)] months by simp
qed

lemma isoDate_eq:
  assumes "0 \<le> y1" "y1 \<le> 9999" "0 \<le> y2" "y2 \<le> 9999"
    and "0 \<le> m1" "m1 \<le> 99" "0 \<le> m2" "m2 \<le> 99"
    and "0 \<le> d1" "d1 \<le> 99" "0 \<le> d2" "d2 \<le> 99"
  shows "isoDate y1 m1 d1 = isoDate y2 m2 d2 \<longleftrightarrow> y1 = y2 \<and> m1 = m2 \<and> d1 = d2"
  unfolding isoDate_4digit [OF assms(1,2)] isoDate_4digit [OF assms(3,4)]
  using pad4_eq [OF assms(1-4)] pad2_eq [OF assms(5-8)] pad2_eq [OF assms(9-12)]
  by (simp add: length_pad4 length_pad2)

lemma no_T_digit: "digit (n mod 10) \<noteq> CHR ''T''"
  by (rule digit_not_T) simp_all

lemma no_T_pad2: "CHR ''T'' \<notin> set (pad2 n)"
  using no_T_digit [of "n div 10"] no_T_digit [of n] by (simp add: pad2_def)

lemma no_T_pad4: "CHR ''T'' \<notin> set (pad4 n)"
  using no_T_digit [of "n div 1000"] no_T_digit [of "n div 100"]
    no_T_digit [of "n div 10"] no_T_digit [of n] by (simp add: pad4_def)

lemma no_T_pad6: "CHR ''T'' \<notin> set (pad6 n)"
  using no_T_digit [of "n div 100000"] no_T_digit [of "n div 10000"] no_T_pad4 [of n]
  by (simp add: pad6_def)

lemma no_T_isoDate: "CHR ''T'' \<notin> set (isoDate y m d)"
  using no_T_pad4 [of y] no_T_pad6 [of "\<bar>y\<bar>"] no_T_pad2 [of m] no_T_pad2 [of d]
  by (simp add: isoDate_def isoYear_def)

lemma split_T_isoDate:
  assumes "rest = [] \<or> hd rest = CHR ''T''"
  shows "split_T (isoDate y m d @ rest) = isoDate y m d"
proof -
  have "takeWhile (\<lambda>c. c \<noteq> CHR ''T'') (isoDate y m d @ rest)
      = isoDate y m d @ takeWhile (\<lambda>c. c \<noteq> CHR ''T'') rest"
    using no_T_isoDate [of y m d] by (intro takeWhile_append2) auto
  moreover have "takeWhile (\<lambda>c. c \<noteq> CHR ''T'') rest = []"
    using assms by (cases rest) auto
  ultimately show ?thesis by (simp add: split_T_def)
qed

lemma split_T_toISOString:
  "split_T (toISOString t) = isoDate (YearFromTime t) (MonthFromTime t + 1) (DateFromTime t)"
  unfolding toISOString_def by (rule split_T_isoDate) simp

lemma number_append:
  "number acc (xs @ ys) = (case number acc xs of None \<Rightarrow> None | Some v \<Rightarrow> number v ys)"
  by (induction xs arbitrary: acc) (simp_all split: option.splits)

lemma number_pad2:
  assumes "0 \<le> n" "n \<le> 99"
  shows "number acc (pad2 n) = Some (100 * acc + n)"
proof -
  have r: "0 \<le> n div 10" "n div 10 \<le> 9" "0 \<le> n mod 10" "n mod 10 \<le> 9"
    using small_div [OF assms] by simp_all
  have "number acc (pad2 n) = Some ((10 * acc + n div 10) * 10 + n mod 10)"
    by (simp add: pad2_digits [OF assms] digitVal_digit [OF r(1,2)] digitVal_digit [OF r(3,4)]
        algebra_simps)
  moreover have "n = 10 * (n div 10) + n mod 10" by simp
  ultimately show ?thesis by (simp add: algebra_simps)
qed

lemma number_pad4:
  assumes "0 \<le> y" "y \<le> 9999"
  shows "number 0 (pad4 y) = Some y"
proof -
  have r: "0 \<le> y div 100" "y div 100 \<le> 99" "0 \<le> y mod 100" "y mod 100 \<le> 99"
    using hundreds [OF assms] by simp_all
  have "number 0 (pad4 y) = Some (100 * (y div 100) + y mod 100)"
    by (simp add: pad4_pad2 number_append number_pad2 [OF r(1,2)] number_pad2 [OF r(3,4)])
  then show ?thesis by simp
qed

lemma digitVal_zero: "digitVal CHR ''0'' = Some 0"
  by (simp add: digitVal_def)

lemma Date_parse_isoDate:
  assumes "validDate y m d" "0 \<le> y" "y \<le> 9999"
  shows "Date_parse (isoDate y m d @ ''T00:00:00.000Z'') = Some (MakeDay y (m - 1) d * msPerDay)"
proof -
  have v: "1 \<le> m" "m \<le> 12" "1 \<le> d" "d \<le> DaysInMonth y m"
    using assms(1) by (simp_all add: validDate_def)
  have "m \<in> {1, 2, 3, 4, 5, 6, 7, 8, 9, 10, 11, 12}" using v(1,2) by simp presburger
  then have "DaysInMonth y m \<le> 31" using DaysInMonth_range [of m y] by simp
  then have d31: "d \<le> 31" using v by simp
  then have d99: "0 \<le> d" "d \<le> 99" using v by simp_all
  have m99: "0 \<le> m" "m \<le> 99" using v by simp_all
  define s where "s = isoDate y m d @ ''T00:00:00.000Z''"
  have s: "s = pad4 y @ CHR ''-'' # pad2 m @ CHR ''-'' # pad2 d @ ''T00:00:00.000Z''"
    unfolding s_def by (simp add: isoDate_4digit [OF assms(2,3)])
  have len: "length s = 24" by (simp add: s length_pad4 length_pad2)
  have sep: "s ! 4 = CHR ''-''" "s ! 7 = CHR ''-''" "s ! 10 = CHR ''T''" "s ! 13 = CHR '':''"
    "s ! 16 = CHR '':''" "s ! 19 = CHR ''.''" "s ! 23 = CHR ''Z''"
    by (simp_all add: s nth_append length_pad4 length_pad2)
  have fy: "field s 0 4 = Some y"
    by (simp add: field_def s length_pad4 number_pad4 [OF assms(2,3)])
  have fm: "field s 5 2 = Some m"
    using number_pad2 [OF m99, of 0] by (simp add: field_def s length_pad4 length_pad2)
  have fd: "field s 8 2 = Some d"
    using number_pad2 [OF d99, of 0] by (simp add: field_def s length_pad4 length_pad2)
  have ft: "field s 11 2 = Some 0" "field s 14 2 = Some 0" "field s 17 2 = Some 0"
    "field s 20 3 = Some 0"
    by (simp_all add: field_def s length_pad4 length_pad2 digitVal_zero)
  show ?thesis
    unfolding s_def [symmetric] Date_parse_def
    using v d31 by (simp add: len sep fy fm fd ft MakeDate_def)
qed

lemma ceil_div_days: "ceil_div (Some (k * msPerDay)) (1000 * 60 * 60 * 24) = Some k"
  by (simp add: ceil_div_def msPerDay_def)

text \<open>
  C1. For a due date that is a calendar date with a four-digit year, written in ISO form
  and possibly followed by a time part, and a clock whose UTC year has four digits: the
  status is \<open>Completed\<close> for a completed task whatever the date; otherwise, with
  \<open>diffDays\<close> the number of days from the UTC day of the clock to the due date, it is
  \<open>Overdue\<close> when \<open>diffDays < 0\<close>, \<open>DueToday\<close> when \<open>diffDays = 0\<close>, \<open>DueSoon\<close> when
  \<open>0 < diffDays \<le> 3\<close>, and \<open>Future\<close> when \<open>diffDays > 3\<close>.
\<close>

theorem getTaskStatus_buckets:
  assumes "validDate y m d" "0 \<le> y" "y \<le> 9999"
    and "0 \<le> YearFromTime now" "YearFromTime now \<le> 9999"
    and "rest = [] \<or> hd rest = CHR ''T''"
  shows "getTaskStatus now (isoDate y m d @ rest) completed =
     (let diffDays = MakeDay y (m - 1) d - Day now
      in if completed then Completed
         else if diffDays < 0 then Overdue
         else if diffDays = 0 then DueToday
         else if diffDays \<le> 3 then DueSoon
         else Future)"
proof -
  define Y M D where "Y = YearFromTime now" and "M = MonthFromTime now + 1"
    and "D = DateFromTime now"
  have vn: "validDate Y M D" unfolding Y_def M_def D_def by (rule fields_valid)
  have dn: "MakeDay Y (M - 1) D = Day now"
    using MakeDay_fields [of now 0] by (simp add: Y_def M_def D_def)
  have range: "0 \<le> mm \<and> mm \<le> 99 \<and> 0 \<le> dd \<and> dd \<le> 99" if "validDate yy mm dd" for yy mm dd
  proof -
    have v: "1 \<le> mm" "mm \<le> 12" "1 \<le> dd" "dd \<le> DaysInMonth yy mm"
      using that by (simp_all add: validDate_def)
    have "mm \<in> {1, 2, 3, 4, 5, 6, 7, 8, 9, 10, 11, 12}" using v(1,2) by simp presburger
    then have "DaysInMonth yy mm \<le> 31" using DaysInMonth_range [of mm yy] by simp
    then show ?thesis using v by simp
  qed
  have r1: "0 \<le> m" "m \<le> 99" "0 \<le> d" "d \<le> 99" using range [OF assms(1)] by simp_all
  have r2: "0 \<le> M" "M \<le> 99" "0 \<le> D" "D \<le> 99" using range [OF vn] by simp_all
  have yn: "0 \<le> Y" "Y \<le> 9999" using assms(4,5) by (simp_all add: Y_def)
  have due: "split_T (isoDate y m d @ rest) = isoDate y m d"
    using assms(6) by (rule split_T_isoDate)
  have today: "split_T (toISOString now) = isoDate Y M D"
    unfolding Y_def M_def D_def by (rule split_T_toISOString)
  have less: "isoDate y m d < isoDate Y M D \<longleftrightarrow> MakeDay y (m - 1) d < Day now"
    using isoDate_less [OF assms(2,3) yn r1(1,2) r2(1,2) r1(3,4) r2(3,4)]
      MakeDay_less [OF assms(1) vn] dn by simp
  have eq: "isoDate y m d = isoDate Y M D \<longleftrightarrow> MakeDay y (m - 1) d = Day now"
    using isoDate_eq [OF assms(2,3) yn r1(1,2) r2(1,2) r1(3,4) r2(3,4)]
      MakeDay_eq [OF assms(1) vn] dn by simp
  have p1: "Date_parse (isoDate y m d @ ''T00:00:00.000Z'') = Some (MakeDay y (m - 1) d * msPerDay)"
    using assms(1-3) by (rule Date_parse_isoDate)
  have p2: "Date_parse (isoDate Y M D @ ''T00:00:00.000Z'') = Some (Day now * msPerDay)"
    using Date_parse_isoDate [OF vn yn] dn by simp
  have diff: "ceil_div (minus_nan (Some (MakeDay y (m - 1) d * msPerDay)) (Some (Day now * msPerDay)))
                (1000 * 60 * 60 * 24) = Some (MakeDay y (m - 1) d - Day now)"
    using ceil_div_days [of "MakeDay y (m - 1) d - Day now"]
    by (simp add: minus_nan_def algebra_simps)
  show ?thesis
    unfolding getTaskStatus_def Let_def due today less eq p1 p2 diff
    by (simp add: le_nan_def)
qed

theorem getTaskStatus_buckets_witness:
  "validDate 2025 8 21 \<and> (0::int) \<le> 2025 \<and> (2025::int) \<le> 9999 \<and>
   0 \<le> YearFromTime 1755600000000 \<and> YearFromTime 1755600000000 \<le> 9999 \<and>
   hd ''T00:00:00.000Z'' = CHR ''T'' \<and>
   MakeDay 2025 (8 - 1) 21 - Day 1755600000000 = 2 \<and>
   getTaskStatus 1755600000000 ''2025-08-21T00:00:00.000Z'' False = DueSoon"
proof -
  have v: "validDate 2025 8 21" by code_simp
  have y: "YearFromTime 1755600000000 = 2025" by code_simp
  have i: "isoDate 2025 8 21 = ''2025-08-21''" by code_simp
  have d: "MakeDay 2025 (8 - 1) 21 - Day 1755600000000 = 2" by code_simp
  have r: "''T00:00:00.000Z'' = [] \<or> hd ''T00:00:00.000Z'' = CHR ''T''" by simp
  have "getTaskStatus 1755600000000 (isoDate 2025 8 21 @ ''T00:00:00.000Z'') False = DueSoon"
    using getTaskStatus_buckets [OF v _ _ _ _ r, of 1755600000000 False] y d
    by (simp add: Let_def)
  then show ?thesis using v y d by (simp add: i)
qed

section \<open>Properties of the task sorter\<close>

lemma length_insertBy: "length (insertBy cmp x ys) = Suc (length ys)"
  by (induction ys) simp_all

lemma set_insertBy: "set (insertBy cmp x ys) = insert x (set ys)"
  by (induction ys) auto

lemma length_sortBy: "length (sortBy cmp xs) = length xs"
  by (induction xs) (simp_all add: length_insertBy)

lemma set_sortBy: "set (sortBy cmp xs) = set xs"
  by (induction xs) (simp_all add: set_insertBy)

text \<open>
  C10. A call on an allocated array returns a reference that was not allocated before,
  so it differs from the argument; every array that existed before the call, the
  argument among them, holds the same elements at the same positions afterwards; the
  new array holds the elements of the argument in sorted order.
\<close>

theorem sortTasksByDueDate_frame:
  assumes "tasks < length h"
  shows "case sortTasksByDueDate h tasks ascending of
           None \<Rightarrow> False
         | Some (copy, h') \<Rightarrow>
             copy = length h \<and> copy \<noteq> tasks \<and>
             take (length h) h' = h \<and> h' ! tasks = h ! tasks \<and>
             h' ! copy = sortBy (compareTasks ascending) (h ! tasks) \<and>
             length (h' ! copy) = length (h ! tasks) \<and> set (h' ! copy) = set (h ! tasks)"
  using assms
  by (simp add: sortTasksByDueDate_def spread_def sort_in_place_def nth_append
      length_sortBy set_sortBy)

lemma Date_parse_examples:
  "Date_parse ''2025-08-19T00:00:00.000Z'' = Some 1755561600000"
  "Date_parse ''2025-08-20T00:00:00.000Z'' = Some 1755648000000"
  "Date_parse ''2025-08-21T00:00:00.000Z'' = Some 1755734400000"
  by (simp_all add: Date_parse_def field_def digitVal_def DaysInMonth_def monthStart_def
      leapDays_def DaysInYear_def MakeDate_def MakeDay_def DayFromYear_def msPerDay_def)

theorem sortTasksByDueDate_frame_witness:
  "(0::nat) < length [[task1, task2, task3]] \<and>
   sortTasksByDueDate [[task1, task2, task3]] 0 True
     = Some (1, [[task1, task2, task3], [task3, task2, task1]])"
  using sortTasksByDueDate_frame [of 0 "[[task1, task2, task3]]" True]
  by (simp add: sortTasksByDueDate_def spread_def sort_in_place_def compareTasks_def
      getTime_def minus_nan_def task1_def task2_def task3_def Date_parse_examples)

section \<open>Properties of the streak calculator\<close>

lemma indexOf_first:
  "x \<in> set arr \<Longrightarrow> 0 \<le> indexOf arr x \<and> nat (indexOf arr x) < length arr \<and>
     arr ! nat (indexOf arr x) = x"
proof (induction arr)
  case Nil
  then show ?case by simp
next
  case (Cons y ys)
  show ?case
  proof (cases "y = x")
    case True
    then show ?thesis by simp
  next
    case False
    with Cons.prems have "x \<in> set ys" by simp
    with Cons.IH have ih: "0 \<le> indexOf ys x" "nat (indexOf ys x) < length ys"
      "ys ! nat (indexOf ys x) = x" by simp_all
    have "nat (indexOf ys x + 1) = Suc (nat (indexOf ys x))" using ih(1) by simp
    then show ?thesis using False ih by (simp add: Let_def)
  qed
qed

lemma set_removeDuplicates: "set (removeDuplicates arr) = set arr"
proof
  show "set (removeDuplicates arr) \<subseteq> set arr"
    by (auto simp: removeDuplicates_def in_set_enumerate_eq)
next
  show "set arr \<subseteq> set (removeDuplicates arr)"
  proof
    fix x assume "x \<in> set arr"
    then have f: "0 \<le> indexOf arr x" "nat (indexOf arr x) < length arr"
      "arr ! nat (indexOf arr x) = x" using indexOf_first by fastforce+
    have "(nat (indexOf arr x), x) \<in> set (enumerate 0 arr)"
      using f by (simp add: in_set_enumerate_eq)
    moreover have "indexOf arr x = int (nat (indexOf arr x))" using f(1) by simp
    ultimately have "(nat (indexOf arr x), x) \<in>
        set (filter (\<lambda>(index, date). indexOf arr date = int index) (enumerate 0 arr))"
      by simp
    then show "x \<in> set (removeDuplicates arr)"
      unfolding removeDuplicates_def by force
  qed
qed

lemma maximal_run_step:
  assumes "c \<in> S" "maximal_run S (c - 1) m"
  shows "maximal_run S c (m + 1)"
proof -
  have m0: "0 \<le> m" and run: "\<forall>i \<in> {0..<m}. c - 1 - i \<in> S" and stop: "c - 1 - m \<notin> S"
    using assms(2) by (simp_all add: maximal_run_def)
  have "c - i \<in> S" if "i \<in> {0..<m + 1}" for i
  proof (cases "i = 0")
    case True
    then show ?thesis using assms(1) by simp
  next
    case False
    then have "i - 1 \<in> {0..<m}" using that by simp
    then have "c - 1 - (i - 1) \<in> S" using run by blast
    then show ?thesis by simp
  qed
  moreover have "c - (m + 1) \<notin> S" using stop by (simp add: algebra_simps)
  ultimately show ?thesis using m0 by (simp add: maximal_run_def)
qed

text \<open>
  On a host whose clocks never change, local time is UTC plus a constant, a step back
  by \<^verbatim>\<open>setDate(getDate() - 1)\<close> subtracts 24 hours, and 24 hours before \<open>now\<close> is
  yesterday.
\<close>

lemma LocalTime_fixed: "tz_summer z = [] \<Longrightarrow> LocalTime z t = t + tz_standard z"
  by (simp add: LocalTime_def LocalTZA_def)

lemma UTC_fixed: "tz_summer z = [] \<Longrightarrow> UTC z t = t - tz_standard z"
  by (simp add: UTC_def LocalTZA_def)

lemma toDateString_utc: "toDateString utc t = t div 86400000"
  by (simp add: toDateString_def LocalTime_def LocalTZA_def utc_def Day_def msPerDay_def)

lemma setDate_fixed:
  "tz_summer z = [] \<Longrightarrow> setDate z t (getDate z t + k) = t + k * msPerDay"
  by (simp add: setDate_getDate LocalTime_fixed UTC_fixed)

lemma toDateString_before:
  assumes "tz_summer z = []"
  shows "toDateString z (t + k * msPerDay) = toDateString z t + k"
proof -
  have "t + k * msPerDay + tz_standard z = (t + tz_standard z) + k * msPerDay"
    by simp
  then have "Day (t + k * msPerDay + tz_standard z) = Day ((t + tz_standard z) + k * msPerDay)"
    by (rule arg_cong)
  also have "\<dots> = Day (t + tz_standard z) + k"
    by (rule Day_add_days)
  finally show ?thesis
    by (simp add: toDateString_def LocalTime_fixed [OF assms])
qed

lemma toDateString_previous:
  assumes "tz_summer z = []"
  shows "toDateString z (setDate z t (getDate z t - 1)) = toDateString z t - 1"
  using setDate_fixed [OF assms, of t "- 1"] toDateString_before [OF assms, of t "- 1"]
  by simp

lemma toDateString_yesterday:
  assumes "tz_summer z = []"
  shows "toDateString z (now - 86400000) = toDateString z now - 1"
  using toDateString_before [OF assms, of now "- 1"] by (simp add: msPerDay_def)

lemma toDateString_Date_of_dateString:
  assumes "tz_summer z = []"
  shows "toDateString z (Date_of_dateString z d) = d"
  by (simp add: toDateString_def Date_of_dateString_def LocalTime_fixed [OF assms]
      UTC_fixed [OF assms] MakeDate_def Day_def msPerDay_def)

lemma streak_loop_run:
  "tz_summer z = [] \<Longrightarrow>
   maximal_run (set ds) (toDateString z cur) (streak_loop z ds cur k - k)"
proof (induction z ds cur k rule: streak_loop.induct)
  case (1 z ds cur k)
  note fixed = "1.prems"
  show ?case
  proof (cases "includes_arr ds (toDateString z cur)")
    case True
    then have mem: "toDateString z cur \<in> set ds" by (simp add: includes_arr_def)
    have ih: "maximal_run (set ds) (toDateString z cur - 1)
        (streak_loop z ds (setDate z cur (getDate z cur - 1)) (k + 1) - (k + 1))"
      using "1.IH" [OF True fixed] by (simp add: toDateString_previous [OF fixed])
    have eq: "streak_loop z ds cur k
        = streak_loop z ds (setDate z cur (getDate z cur - 1)) (k + 1)"
      using True by (subst streak_loop.simps) simp
    show ?thesis
      using maximal_run_step [OF mem ih] by (simp add: eq algebra_simps)
  next
    case False
    then have "streak_loop z ds cur k = k" by (subst streak_loop.simps) simp
    then show ?thesis using False by (simp add: maximal_run_def includes_arr_def)
  qed
qed

lemma completionDates_set:
  "set (removeDuplicates (sort (map (\<lambda>task. toDateString z (t_updatedAt task))
                                 (filter t_completed tasks))))
   = completionDays z tasks"
  by (simp add: set_removeDuplicates completionDays_def)

text \<open>
  The streak on a host whose clocks never change. With \<open>S\<close> the set of distinct
  completion days, the streak is the length of the maximal run of consecutive days of
  \<open>S\<close> ending today when today is in \<open>S\<close>, ending yesterday when only yesterday is, and 0
  when neither is (in particular when \<open>S\<close> is empty).
\<close>

lemma calculateStreak_fixed_offset:
  assumes "tz_summer z = []"
  shows "(let S = completionDays z tasks;
              today = toDateString z now;
              yesterday = today - 1;
              n = calculateStreak z now tasks
          in if today \<in> S then maximal_run S today n
             else if yesterday \<in> S then maximal_run S yesterday n
             else n = 0)"
proof -
  define ds where "ds = removeDuplicates (sort (map (\<lambda>task. toDateString z (t_updatedAt task))
                                 (filter t_completed tasks)))"
  define today where "today = toDateString z now"
  have S: "set ds = completionDays z tasks"
    unfolding ds_def by (rule completionDates_set)
  have empty: "completionDays z tasks = {}" if "ds = []"
    using S that by simp
  have empty': "completionDays z tasks = {}" if "tasks = []"
    using that by (simp add: completionDays_def)
  have run: "maximal_run (set ds) d (streak_loop z ds (Date_of_dateString z d) 0)" for d
    using streak_loop_run [OF assms, of ds "Date_of_dateString z d" 0]
    by (simp add: toDateString_Date_of_dateString [OF assms])
  have cs: "calculateStreak z now tasks =
     (if tasks = [] then 0
      else if ds = [] then 0
      else if today \<notin> set ds \<and> today - 1 \<notin> set ds then 0
      else streak_loop z ds (Date_of_dateString z (if today \<in> set ds then today else today - 1)) 0)"
    unfolding calculateStreak_def Let_def ds_def [symmetric] toDateString_yesterday [OF assms]
      today_def [symmetric] includes_arr_def
    by simp
  show ?thesis
    unfolding Let_def today_def [symmetric] cs
    using empty empty' run [of today] run [of "today - 1"]
    by (auto simp: S)
qed

lemma maximal_run_unique:
  assumes "maximal_run S c n" "maximal_run S c m"
  shows "n = m"
proof (rule ccontr)
  assume "n \<noteq> m"
  then consider "n < m" | "m < n" by linarith
  then show False
  proof cases
    case 1
    then have "n \<in> {0..<m}" using assms(1) by (simp add: maximal_run_def)
    then have "c - n \<in> S" using assms(2) unfolding maximal_run_def by blast
    then show False using assms(1) by (simp add: maximal_run_def)
  next
    case 2
    then have "m \<in> {0..<n}" using assms(2) by (simp add: maximal_run_def)
    then have "c - m \<in> S" using assms(1) unfolding maximal_run_def by blast
    then show False using assms(2) by (simp add: maximal_run_def)
  qed
qed

lemma streakTasks_streak: "calculateStreak utc 1755600000000 streakTasks = 3"
  by code_simp

lemma calculateStreak_fixed_offset_example:
  "toDateString utc 1755600000000 \<in> completionDays utc streakTasks \<and>
   calculateStreak utc 1755600000000 streakTasks = 3 \<and>
   maximal_run (completionDays utc streakTasks) (toDateString utc 1755600000000) 3"
proof -
  have m: "toDateString utc 1755600000000 \<in> completionDays utc streakTasks"
    by code_simp
  have f: "tz_summer utc = []"
    by (simp add: utc_def)
  show ?thesis
    using calculateStreak_fixed_offset [OF f, of streakTasks 1755600000000] streakTasks_streak m
    by (simp add: Let_def)
qed

text \<open>
  C2. The streak is the length of the run of completion days that ends today or, when
  nothing was completed today, yesterday. The code takes for yesterday the local day of
  the instant 24 hours before \<open>now\<close>, which is yesterday only when the clocks did not
  change in between. In New York the clocks were put back at 2 a.m. on Sunday, 2
  November 2025, and that day has 25 hours. At 23:30 of that day, 24 hours earlier is
  00:30 of the same Sunday. For a user whose only completion is of Saturday, 1 November,
  neither today nor the day taken for yesterday is a completion day, and the streak is
  0, although the run of completion days that ends yesterday has length 1: Saturday is
  a completion day and Friday is not. An hour earlier in the evening the streak is 1.
\<close>

theorem calculateStreak_after_clocks_put_back:
  "toDateString newYork 1762144200000 = MakeDay 2025 10 2 \<and>
   toDateString newYork (1762144200000 - 86400000) = MakeDay 2025 10 2 \<and>
   completionDays newYork [novemberTask] = {MakeDay 2025 10 1} \<and>
   calculateStreak newYork 1762144200000 [novemberTask] = 0 \<and>
   calculateStreak newYork (1762144200000 - 3600000) [novemberTask] = 1"
  by code_simp

section \<open>Properties of the report period\<close>

lemma previousMonthLength_range:
  "28 \<le> previousMonthLength z now \<and> previousMonthLength z now \<le> 31"
proof -
  define l where "l = LocalTime z now"
  show ?thesis
  proof (cases "MonthFromTime l = 0")
    case True
    then show ?thesis by (simp add: previousMonthLength_def l_def [symmetric])
  next
    case False
    then have "MonthFromTime l \<in> {1, 2, 3, 4, 5, 6, 7, 8, 9, 10, 11, 12}"
      using MonthFromTime_cases [of l] by auto
    then show ?thesis
      using False DaysInMonth_range [of "MonthFromTime l" "YearFromTime l"]
      by (simp add: previousMonthLength_def l_def [symmetric] Let_def)
  qed
qed

lemma MakeDay_previous_month:
  "MakeDay (YearFromTime l) (MonthFromTime l - 1) (DateFromTime l)
   = Day l - (if MonthFromTime l = 0 then 31 else DaysInMonth (YearFromTime l) (MonthFromTime l))"
proof (cases "MonthFromTime l = 0")
  case True
  have y: "DayFromYear (YearFromTime l) =
      DayFromYear (YearFromTime l - 1) + DaysInYear (YearFromTime l - 1)"
    using DayFromYear_Suc [of "YearFromTime l - 1"] by simp
  have "MakeDay (YearFromTime l) (- 1) (DateFromTime l)
      = DayFromYear (YearFromTime l - 1) + (334 + leapDays (YearFromTime l - 1))
        + DateFromTime l - 1"
    by (simp add: MakeDay_def monthStart_def Let_def)
  moreover have "Day l = DayFromYear (YearFromTime l) + DateFromTime l - 1"
    using Day_fields [of l] True by (simp add: monthStart_def)
  ultimately show ?thesis using True y by (simp add: leapDays_def)
next
  case False
  then have m: "MonthFromTime l \<in> {1, 2, 3, 4, 5, 6, 7, 8, 9, 10, 11}"
    using MonthFromTime_cases [of l] by auto
  then have dm: "(MonthFromTime l - 1) div 12 = 0" "(MonthFromTime l - 1) mod 12 = MonthFromTime l - 1"
    by auto
  have "MakeDay (YearFromTime l) (MonthFromTime l - 1) (DateFromTime l)
      = DayFromYear (YearFromTime l) + monthStart (InLeapYear l) (MonthFromTime l - 1)
        + DateFromTime l - 1"
    by (simp add: MakeDay_def dm InLeapYear_def Let_def)
  then show ?thesis
    using False Day_fields [of l] by (simp add: DaysInMonth_def InLeapYear_def)
qed

lemma setMonth_previous:
  "setMonth z now (getMonth z now - 1)
   = UTC z (LocalTime z now - previousMonthLength z now * msPerDay)"
proof -
  define l where "l = LocalTime z now"
  define n where "n = (if MonthFromTime l = 0 then 31 else DaysInMonth (YearFromTime l) (MonthFromTime l))"
  have "MakeDate (Day l - n) (TimeWithinDay l) = l + (- n) * msPerDay"
    using MakeDate_Day [of l "- n"] by simp
  then have "setMonth z now (getMonth z now - 1) = UTC z (l - n * msPerDay)"
    by (simp add: setMonth_def getMonth_def l_def [symmetric] Let_def MakeDay_previous_month
        n_def [symmetric])
  moreover have "previousMonthLength z now = n"
    by (simp add: previousMonthLength_def l_def [symmetric] n_def Let_def)
  ultimately show ?thesis by (simp add: l_def)
qed

lemma setHours0_midnight:
  "setHours0 z now = UTC z (LocalTime z now - TimeWithinDay (LocalTime z now))"
proof -
  have "LocalTime z now = Day (LocalTime z now) * msPerDay + TimeWithinDay (LocalTime z now)"
    by (simp add: Day_def TimeWithinDay_def)
  then have "MakeDate (Day (LocalTime z now)) 0
             = LocalTime z now - TimeWithinDay (LocalTime z now)"
    by (simp add: MakeDate_def)
  then show ?thesis
    by (simp add: setHours0_def)
qed

lemma Date_2000: "MakeDate (MakeDay 2000 0 1) 0 = 946684800000"
  by (simp add: MakeDate_def MakeDay_def DayFromYear_def monthStart_def msPerDay_def)

text \<open>
  C7. The window of the period \<^verbatim>\<open>month\<close> starts 30 days before \<open>now\<close>. The code starts it
  one calendar month before \<open>now\<close> instead (\<^verbatim>\<open>setMonth(getMonth() - 1)\<close>), while the month
  block of the same handler reaches back \<^verbatim>\<open>30 * 24 * 60 * 60 * 1000\<close> milliseconds. On a host
  on UTC at noon of 15 March 2025 the range starts at noon of 15 February, 28 days
  earlier and not 30. At the same instant the other three periods are as they should
  be: \<^verbatim>\<open>week\<close> starts 7 days earlier, \<^verbatim>\<open>today\<close> at midnight of 15 March, \<^verbatim>\<open>all\<close> at
  the first instant of the year 2000, and every range ends at \<open>now\<close>.
\<close>

theorem getDateRange_month_not_30_days:
  "getDateRange utc 1742040000000 ''month'' = (1742040000000 - 28 * msPerDay, 1742040000000) \<and>
   fst (getDateRange utc 1742040000000 ''month'') \<noteq> 1742040000000 - 30 * 24 * 60 * 60 * 1000 \<and>
   getDateRange utc 1742040000000 ''week'' = (1742040000000 - 7 * msPerDay, 1742040000000) \<and>
   getDateRange utc 1742040000000 ''today'' = (MakeDate (MakeDay 2025 2 15) 0, 1742040000000) \<and>
   getDateRange utc 1742040000000 ''all'' = (MakeDate (MakeDay 2000 0 1) 0, 1742040000000)"
  by code_simp

text \<open>
  The ranges in general. Every range ends at \<open>now\<close>, and \<^verbatim>\<open>all\<close> starts at the first
  instant of the year 2000. The other starts are built from local fields: local
  midnight of the current day, the same local time 7 days earlier, the same local
  time as many days earlier as the previous calendar month has, 28 to 31. On a host
  whose clocks never change these are time values, the last two a whole number of days
  before \<open>now\<close>; across a change of the clocks they are an hour nearer or farther, as
  for the week that ends at noon of Wednesday, 12 March 2025, in New York.
\<close>

lemma getDateRange_end: "snd (getDateRange z now period) = now"
  by (simp add: getDateRange_def)

lemma getDateRange_local:
  "getDateRange z now ''today''
   = (UTC z (LocalTime z now - TimeWithinDay (LocalTime z now)), now)"
  "getDateRange z now ''week'' = (UTC z (LocalTime z now - 7 * msPerDay), now)"
  "getDateRange z now ''month''
   = (UTC z (LocalTime z now - previousMonthLength z now * msPerDay), now)"
  "getDateRange z now ''all'' = (946684800000, now)"
proof -
  have w: "setDate z now (getDate z now - 7) = UTC z (LocalTime z now - 7 * msPerDay)"
    using setDate_getDate [of z now "- 7"] by simp
  show "getDateRange z now ''today''
        = (UTC z (LocalTime z now - TimeWithinDay (LocalTime z now)), now)"
    and "getDateRange z now ''week'' = (UTC z (LocalTime z now - 7 * msPerDay), now)"
    and "getDateRange z now ''month''
         = (UTC z (LocalTime z now - previousMonthLength z now * msPerDay), now)"
    and "getDateRange z now ''all'' = (946684800000, now)"
    by (simp_all add: getDateRange_def setHours0_midnight w setMonth_previous Date_2000)
qed

lemma getDateRange_fixed_offset:
  assumes "tz_summer z = []"
  shows "getDateRange z now ''today'' = (now - TimeWithinDay (LocalTime z now), now)"
    and "getDateRange z now ''week'' = (now - 7 * msPerDay, now)"
    and "getDateRange z now ''month'' = (now - previousMonthLength z now * msPerDay, now)"
    and "28 \<le> previousMonthLength z now \<and> previousMonthLength z now \<le> 31"
  using previousMonthLength_range [of z now]
  by (simp_all add: getDateRange_local UTC_fixed [OF assms] LocalTime_fixed [OF assms])

lemma getDateRange_week_across_clock_change:
  "getDateRange newYork 1741795200000 ''week''
   = (1741795200000 - 7 * msPerDay + msPerHour, 1741795200000)"
  by code_simp

lemma UTC_LocalTime_bounds:
  "now - k - msPerHour \<le> UTC z (LocalTime z now - k) \<and>
   UTC z (LocalTime z now - k) \<le> now - k + msPerHour"
  using LocalTZA_cases [of z now True] LocalTZA_cases [of z "LocalTime z now - k" False]
  by (auto simp: LocalTime_def UTC_def msPerHour_def)

section \<open>Properties of the report\<close>

lemma filter_length_Inr:
  "filter_length p xs = Inr n \<Longrightarrow> n = int (length (filter (\<lambda>x. p x = Inr True) xs))"
proof (induction xs arbitrary: n)
  case Nil
  then show ?case by simp
next
  case (Cons x xs)
  then show ?case by (auto split: sum.splits if_splits)
qed

lemma filter_length_Inl:
  "(\<exists>e. filter_length p xs = Inl e) \<longleftrightarrow> (\<exists>x \<in> set xs. \<exists>e. p x = Inl e)"
proof (induction xs)
  case Nil
  then show ?case by simp
next
  case (Cons x xs)
  then show ?case by (cases "p x"; cases "filter_length p xs") auto
qed

text \<open>What a produced report holds, field by field.\<close>

lemma report_fields:
  assumes "report z now userTasks period categoryId = Inr r"
  defines "tasks \<equiv> filter (baseFilter (getDateRange z now period) categoryId) userTasks"
  shows "totalTasks (overview r) = int (length tasks)"
    and "completedTasks (overview r) = count_completed tasks"
    and "pendingTasks (overview r) = int (length tasks) - count_completed tasks"
    and "ov_completionRate (overview r)
         = fl (of_int (Math_round (fl (rate tasks * 100))) / 100)"
    and "filter_length (isOverdue (split_T (toISOString now))) tasks
         = Inr (overdueTasks (overview r))"
    and "productiveDays (overview r)
         = int (length (remdups (map (\<lambda>task. toDateString z (t_updatedAt task))
             (filter t_completed tasks))))"
    and "currentStreak (overview r) = calculateStreak z now userTasks"
    and "summary_today r
         = summarize (filter (\<lambda>task. toDateString z (t_createdAt task) = toDateString z now)
             tasks)"
    and "summary_week r
         = summarize (filter (\<lambda>task. t_createdAt task \<ge> now - 7 * 24 * 60 * 60 * 1000) tasks)"
    and "summary_month r
         = summarize (filter (\<lambda>task. t_createdAt task \<ge> now - 30 * 24 * 60 * 60 * 1000) tasks)"
  using assms(1) unfolding tasks_def report_def Let_def
  by (auto split: sum.splits)

text \<open>
  A report is produced unless the overdue filter meets, among the tasks of the period,
  one that is not completed and whose due date is a \<^verbatim>\<open>Date\<close> object. So every history
  whose due dates are strings yields a report, and a report produced from database rows
  counts no overdue task.
\<close>

lemma report_raises:
  "(\<exists>e. report z now userTasks period categoryId = Inl e) \<longleftrightarrow>
   (\<exists>task \<in> set (filter (baseFilter (getDateRange z now period) categoryId) userTasks).
      \<not> t_completed task \<and> (\<exists>t. t_dueDate task = Some (DateObject t)))"
proof -
  have p: "(\<exists>e. isOverdue s task = Inl e) \<longleftrightarrow>
      \<not> t_completed task \<and> (\<exists>t. t_dueDate task = Some (DateObject t))" for s task
    by (auto simp: isOverdue_def split: option.splits DateValue.splits)
  have "(\<exists>e. report z now userTasks period categoryId = Inl e) \<longleftrightarrow>
      (\<exists>e. filter_length (isOverdue (split_T (toISOString now)))
             (filter (baseFilter (getDateRange z now period) categoryId) userTasks) = Inl e)"
    unfolding report_def Let_def by (auto split: sum.splits)
  then show ?thesis
    unfolding filter_length_Inl p by simp
qed

lemma report_of_rows_counts_no_overdue:
  assumes "report z now userTasks period categoryId = Inr r"
    and "\<forall>task \<in> set userTasks. \<forall>s. t_dueDate task \<noteq> Some (DateString s)"
  shows "overdueTasks (overview r) = 0"
proof -
  define tasks where "tasks = filter (baseFilter (getDateRange z now period) categoryId) userTasks"
  have "filter (\<lambda>x. isOverdue (split_T (toISOString now)) x = Inr True) tasks = []"
    using assms(2) unfolding tasks_def
    by (auto simp: filter_empty_conv isOverdue_def split: option.splits DateValue.splits)
  then show ?thesis
    using filter_length_Inr [OF report_fields(5) [OF assms(1)]]
    by (simp add: tasks_def)
qed

lemma streakTasks_ranges:
  "getDateRange utc 1755600000000 ''today'' = (1755561600000, 1755600000000)"
  "getDateRange utc 1755600000000 ''week'' = (1754995200000, 1755600000000)"
  "getDateRange utc 1755600000000 ''month'' = (1752921600000, 1755600000000)"
  "getDateRange utc 1755600000000 ''all'' = (946684800000, 1755600000000)"
  by code_simp+

lemma streakTasks_no_overdue: "filter_length (isOverdue s) (filter P streakTasks) = Inr 0"
  by (simp add: streakTasks_def isOverdue_def)

lemma streakTasks_report_produced: "\<exists>r. report z now streakTasks period categoryId = Inr r"
  by (simp add: report_def Let_def streakTasks_no_overdue)


lemma produced: "\<exists>r. x = Inr r \<Longrightarrow> x = Inr (projr x)" for x :: "jsError + Report"
  by auto

lemma streakTasks_report:
  "report z now streakTasks period categoryId
   = Inr (projr (report z now streakTasks period categoryId))"
  using streakTasks_report_produced by (rule produced)

text \<open>
  Rounding to the nearest double is monotone: a number and its rounding lie in the same
  binade, and within a binade rounding is the monotone rounding of a multiple of one unit.
\<close>

lemma bitlen_powi:
  assumes "0 < p"
  shows "(2::rat) powi (bitlen p - 1) \<le> of_int p \<and> of_int p < (2::rat) powi (bitlen p)"
proof -
  have b: "2 ^ nat (bitlen p - 1) \<le> p" "p < 2 ^ nat (bitlen p)"
    using bitlen_bounds [OF assms] by simp_all
  have pos: "1 \<le> bitlen p"
    using assms by (simp add: bitlen_alt_def)
  have "(of_int (2 ^ nat (bitlen p - 1)) :: rat) \<le> of_int p"
    using b(1) by (simp only: of_int_le_iff)
  moreover have "(of_int p :: rat) < of_int (2 ^ nat (bitlen p))"
    using b(2) by (simp only: of_int_less_iff)
  ultimately show ?thesis
    using pos by (simp add: power_int_def)
qed

lemma binade_bounds:
  assumes "0 < x"
  shows "2 powi binade x \<le> x \<and> x < 2 powi (binade x + 1)"
proof -
  obtain p q where pq: "quotient_of x = (p, q)" by (cases "quotient_of x")
  have q: "0 < q" using quotient_of_denom_pos [OF pq] .
  have x: "x = of_int p / of_int q" using quotient_of_div [OF pq] .
  have p: "0 < p"
    using assms q unfolding x by (simp add: zero_less_divide_iff)
  define k where "k = bitlen p - bitlen q"
  have bp: "(2::rat) powi (bitlen p - 1) \<le> of_int p" "of_int p < (2::rat) powi (bitlen p)"
    using bitlen_powi [OF p] by simp_all
  have bq: "(2::rat) powi (bitlen q - 1) \<le> of_int q" "of_int q < (2::rat) powi (bitlen q)"
    using bitlen_powi [OF q] by simp_all
  have qpos: "(0::rat) < of_int q" using q by simp
  have ppos: "(0::rat) < of_int p" using p by simp
  have "x * 2 powi (bitlen q - 1) \<le> x * of_int q"
    using bq(1) assms by (simp add: mult_left_mono)
  also have "\<dots> = of_int p" using qpos by (simp add: x)
  also have "\<dots> < 2 powi (bitlen p)" by (rule bp(2))
  finally have "x * 2 powi (bitlen q - 1) < 2 powi (bitlen p)" .
  then have "x < 2 powi (bitlen p) / 2 powi (bitlen q - 1)"
    by (simp add: pos_less_divide_eq)
  also have "\<dots> = 2 powi (k + 1)"
    by (simp add: k_def power_int_diff [symmetric] algebra_simps)
  finally have hi: "x < 2 powi (k + 1)" .
  have "(2::rat) powi (bitlen p - 1) \<le> of_int p" by (rule bp(1))
  also have "\<dots> = x * of_int q" using qpos by (simp add: x)
  also have "\<dots> < x * 2 powi (bitlen q)"
    using bq(2) assms by (simp add: mult_strict_left_mono)
  finally have "2 powi (bitlen p - 1) / 2 powi (bitlen q) < x"
    by (simp add: pos_divide_less_eq)
  moreover have "(2::rat) powi (bitlen p - 1) / 2 powi (bitlen q) = 2 powi (k - 1)"
    by (simp add: k_def power_int_diff [symmetric] algebra_simps)
  ultimately have lo: "2 powi (k - 1) < x" by simp
  show ?thesis
    using hi lo by (simp add: binade_def pq k_def [symmetric] Let_def)
qed

lemma binade_mono:
  assumes "0 < x" "x \<le> y"
  shows "binade x \<le> binade y"
proof (rule ccontr)
  assume "\<not> binade x \<le> binade y"
  then have "binade y + 1 \<le> binade x" by simp
  then have "(2::rat) powi (binade y + 1) \<le> 2 powi binade x"
    by (intro power_int_increasing) simp_all
  moreover have "y < 2 powi (binade y + 1)"
    using binade_bounds [of y] assms by simp
  moreover have "2 powi binade x \<le> x"
    using binade_bounds [OF assms(1)] by simp
  ultimately show False using assms(2) by simp
qed

lemma roundHalfEven_floor: "\<lfloor>q\<rfloor> \<le> roundHalfEven q \<and> roundHalfEven q \<le> \<lfloor>q\<rfloor> + 1"
  by (simp add: roundHalfEven_def Let_def)

lemma roundHalfEven_of_int: "roundHalfEven (of_int n) = n"
  by (simp add: roundHalfEven_def)

lemma roundHalfEven_mono:
  assumes "p \<le> q"
  shows "roundHalfEven p \<le> roundHalfEven q"
proof (cases "\<lfloor>p\<rfloor> = \<lfloor>q\<rfloor>")
  case True
  then show ?thesis
    using assms by (auto simp: roundHalfEven_def Let_def)
next
  case False
  then have "\<lfloor>p\<rfloor> < \<lfloor>q\<rfloor>"
    using floor_mono [OF assms] by simp
  then show ?thesis
    using roundHalfEven_floor [of p] roundHalfEven_floor [of q] by simp
qed

lemma roundHalfEven_le: "q \<le> of_int n \<Longrightarrow> roundHalfEven q \<le> n"
  using roundHalfEven_mono [of q "of_int n"] by (simp add: roundHalfEven_of_int)

lemma roundHalfEven_ge: "of_int n \<le> q \<Longrightarrow> n \<le> roundHalfEven q"
  using roundHalfEven_mono [of "of_int n" q] by (simp add: roundHalfEven_of_int)

lemma fl_pos:
  assumes "0 < x"
  shows "fl x = of_int (roundHalfEven (x / 2 powi (binade x - 52))) * 2 powi (binade x - 52)"
  using assms by (simp add: fl_def Let_def)

lemma fl_binade:
  assumes "0 < x"
  shows "2 powi binade x \<le> fl x \<and> fl x \<le> 2 powi (binade x + 1)"
proof -
  define u :: rat where "u = 2 powi (binade x - 52)"
  have u: "0 < u" by (simp add: u_def)
  have lo: "of_int (2 ^ 52) * u = 2 powi binade x"
    by (simp add: u_def power_int_diff)
  have hi: "of_int (2 ^ 53) * u = 2 powi (binade x + 1)"
    by (simp add: u_def power_int_diff power_int_add)
  have "of_int (2 ^ 52) * u \<le> x"
    using binade_bounds [OF assms] by (simp only: lo)
  then have "of_int (2 ^ 52) \<le> x / u"
    using u by (simp add: pos_le_divide_eq)
  then have "2 ^ 52 \<le> roundHalfEven (x / u)"
    by (rule roundHalfEven_ge)
  then have "(of_int (2 ^ 52) :: rat) \<le> of_int (roundHalfEven (x / u))"
    by (simp only: of_int_le_iff)
  then have a: "of_int (2 ^ 52) * u \<le> of_int (roundHalfEven (x / u)) * u"
    using u by (simp only: mult_le_cancel_right) simp
  have "x < 2 powi (binade x + 1)"
    using binade_bounds [OF assms] by simp
  then have "x \<le> of_int (2 ^ 53) * u"
    unfolding hi by (rule less_imp_le)
  then have "x / u \<le> of_int (2 ^ 53)"
    using u by (simp add: pos_divide_le_eq)
  then have "roundHalfEven (x / u) \<le> 2 ^ 53"
    by (rule roundHalfEven_le)
  then have "(of_int (roundHalfEven (x / u)) :: rat) \<le> of_int (2 ^ 53)"
    by (simp only: of_int_le_iff)
  then have b: "of_int (roundHalfEven (x / u)) * u \<le> of_int (2 ^ 53) * u"
    using u by (simp only: mult_le_cancel_right) simp
  show ?thesis
    using a b unfolding lo hi fl_pos [OF assms] u_def [symmetric] by simp
qed

lemma fl_mono_pos:
  assumes "0 < x" "x \<le> y"
  shows "fl x \<le> fl y"
proof (cases "binade x = binade y")
  case True
  define u :: rat where "u = 2 powi (binade x - 52)"
  have u: "0 < u" by (simp add: u_def)
  have "x / u \<le> y / u" using assms(2) u by (simp add: divide_right_mono)
  then have "roundHalfEven (x / u) \<le> roundHalfEven (y / u)"
    by (rule roundHalfEven_mono)
  then have "(of_int (roundHalfEven (x / u)) :: rat) \<le> of_int (roundHalfEven (y / u))"
    by (simp only: of_int_le_iff)
  then have "of_int (roundHalfEven (x / u)) * u \<le> of_int (roundHalfEven (y / u)) * u"
    using u by (simp only: mult_le_cancel_right) simp
  moreover have "0 < y" using assms by simp
  ultimately show ?thesis
    using assms(1) True by (simp add: fl_pos u_def)
next
  case False
  then have "binade x + 1 \<le> binade y"
    using binade_mono [OF assms] by simp
  then have "(2::rat) powi (binade x + 1) \<le> 2 powi binade y"
    by (intro power_int_increasing) simp_all
  moreover have "fl x \<le> 2 powi (binade x + 1)"
    using fl_binade [OF assms(1)] by simp
  moreover have "2 powi binade y \<le> fl y"
    using fl_binade [of y] assms by simp
  ultimately show ?thesis by simp
qed

lemma fl_nonneg: "0 \<le> x \<Longrightarrow> 0 \<le> fl x"
proof (cases "x = 0")
  case True
  then show ?thesis by (simp add: fl_def)
next
  case False
  assume "0 \<le> x"
  with False have x: "0 < x" by simp
  have "(0::rat) \<le> 2 powi binade x" by simp
  moreover have "2 powi binade x \<le> fl x" using fl_binade [OF x] by simp
  ultimately show ?thesis by (rule order_trans)
qed

lemma fl_mono:
  assumes "0 \<le> x" "x \<le> y"
  shows "fl x \<le> fl y"
proof (cases "x = 0")
  case True
  then show ?thesis using fl_nonneg [of y] assms by (simp add: fl_def)
next
  case False
  then show ?thesis using assms fl_mono_pos [of x y] by simp
qed

lemma fl_values: "fl 1 = 1" "fl 80 = 80" "fl 100 = 100" "fl 8000 = 8000" "fl 10000 = 10000"
  by code_simp+

text \<open>
  The rounding shows in the figures: of 160 tasks with 23 completed the rate is
  14.374999999999998, the double below 14.375, and the overview reports 14.37.
\<close>

lemma rate_23_of_160:
  "fl (fl (23 / 160) * 100) < 14375 / 1000 \<and>
   fl (of_int (Math_round (fl (fl (fl (23 / 160) * 100) * 100))) / 100) = fl (1437 / 100)"
  by code_simp

lemma count_completed_bounds: "0 \<le> count_completed ts \<and> count_completed ts \<le> int (length ts)"
  by (simp add: count_completed_def)

lemma rate_bounds: "0 \<le> rate ts \<and> rate ts \<le> 100"
proof (cases "length ts > 0")
  case True
  define q :: rat where "q = of_int (count_completed ts) / of_int (int (length ts))"
  have c: "0 \<le> count_completed ts" "count_completed ts \<le> int (length ts)"
    using count_completed_bounds [of ts] by simp_all
  have pos: "(0::rat) < of_int (int (length ts))" using True by simp
  have "(of_int (count_completed ts) :: rat) \<le> of_int (int (length ts))"
    using c(2) by (simp only: of_int_le_iff)
  then have q1: "q \<le> 1"
    unfolding q_def using pos by (simp add: divide_le_eq_1)
  have q0: "0 \<le> q"
    unfolding q_def using c(1) pos by simp
  have f0: "0 \<le> fl q" using q0 by (rule fl_nonneg)
  have f1: "fl q \<le> 1" using fl_mono [OF q0 q1] by (simp add: fl_values)
  have r: "rate ts = fl (fl q * 100)" using True by (simp add: rate_def q_def)
  have lo: "0 \<le> fl q * 100" using f0 by simp
  have "fl q * 100 \<le> 1 * 100" using f1 by (rule mult_right_mono) simp
  then have "fl (fl q * 100) \<le> fl 100" using fl_mono [OF lo] by simp
  then show ?thesis using fl_nonneg [OF lo] r by (simp add: fl_values)
next
  case False
  then show ?thesis by (simp add: rate_def)
qed

lemma rate_Nil: "rate [] = 0"
  by (simp add: rate_def)

lemma Math_round_0: "Math_round 0 = 0"
proof -
  have "\<lfloor>(1::rat) / 2\<rfloor> = 0" by (rule floor_unique) simp_all
  then show ?thesis by (simp add: Math_round_def)
qed

lemma Math_round_8000: "Math_round 8000 = 8000"
proof -
  have "\<lfloor>(8000::rat) + 1 / 2\<rfloor> = 8000" by (rule floor_unique) simp_all
  then show ?thesis by (simp add: Math_round_def)
qed

lemma rounded_rate_bounds:
  "0 \<le> fl (of_int (Math_round (fl (rate ts * 100))) / 100) \<and>
   fl (of_int (Math_round (fl (rate ts * 100))) / 100) \<le> 100"
proof -
  define x where "x = fl (rate ts * 100)"
  have r: "0 \<le> rate ts" "rate ts \<le> 100" using rate_bounds [of ts] by simp_all
  have r0: "0 \<le> rate ts * 100" using r(1) by simp
  have "rate ts * 100 \<le> 100 * 100" using r(2) by (rule mult_right_mono) simp
  then have "x \<le> fl 10000" unfolding x_def using fl_mono [OF r0] by simp
  then have x1: "x \<le> 10000" by (simp add: fl_values)
  have x0: "0 \<le> x" unfolding x_def using r0 by (rule fl_nonneg)
  have "0 \<le> x + 1 / 2" using x0 by simp
  then have lo: "0 \<le> Math_round x" by (simp add: Math_round_def)
  have "x + 1 / 2 < of_int 10001" using x1 by simp
  then have "Math_round x < 10001"
    unfolding Math_round_def by (simp only: floor_less_iff)
  then have hi: "Math_round x \<le> 10000" by simp
  have "(of_int (Math_round x) :: rat) \<le> of_int 10000"
    using hi by (simp only: of_int_le_iff)
  then have y1: "(of_int (Math_round x) :: rat) / 100 \<le> 100" by simp
  have y0: "0 \<le> (of_int (Math_round x) :: rat) / 100" using lo by simp
  have "fl (of_int (Math_round x) / 100) \<le> fl 100" using fl_mono [OF y0 y1] .
  then show ?thesis
    using fl_nonneg [OF y0] by (simp add: fl_values x_def)
qed

lemma summarize_ok: "summary_ok (summarize ts)"
  using count_completed_bounds [of ts] rate_bounds [of ts]
  by (simp add: summary_ok_def summarize_def rate_def)

text \<open>
  C5. In every report that is produced the overview counts satisfy completed + pending =
  total with neither count negative, the overview rate lies between 0 and 100 and is 0
  when there is no task, and each of the three summary blocks is well formed in the
  same sense.
\<close>

theorem report_counts_and_rates:
  assumes "report z now userTasks period categoryId = Inr r"
  shows "(let ov = overview r
          in completedTasks ov + pendingTasks ov = totalTasks ov \<and>
             0 \<le> completedTasks ov \<and> 0 \<le> pendingTasks ov \<and>
             0 \<le> ov_completionRate ov \<and> ov_completionRate ov \<le> 100 \<and>
             (totalTasks ov = 0 \<longrightarrow> ov_completionRate ov = 0) \<and>
             summary_ok (summary_today r) \<and> summary_ok (summary_week r) \<and>
             summary_ok (summary_month r))"
proof -
  define tasks where "tasks = filter (baseFilter (getDateRange z now period) categoryId) userTasks"
  have c: "0 \<le> count_completed tasks" "count_completed tasks \<le> int (length tasks)"
    using count_completed_bounds [of tasks] by simp_all
  have z: "int (length tasks) = 0 \<longrightarrow>
      fl (of_int (Math_round (fl (rate tasks * 100))) / 100) = 0"
    by (simp add: rate_def Math_round_0 fl_def)
  show ?thesis
    unfolding Let_def report_fields [OF assms] tasks_def [symmetric]
    using c z rounded_rate_bounds [of tasks]
    by (simp add: summarize_ok)
qed

theorem report_counts_and_rates_witness:
  "report utc 1755600000000 streakTasks ''all'' None
     = Inr (projr (report utc 1755600000000 streakTasks ''all'' None)) \<and>
   (let r = projr (report utc 1755600000000 streakTasks ''all'' None); ov = overview r
    in totalTasks ov = 5 \<and> completedTasks ov = 4 \<and> pendingTasks ov = 1 \<and>
       ov_completionRate ov = 80 \<and> sm_total (summary_today r) = 0 \<and>
       sm_completionRate (summary_today r) = 0 \<and> sm_total (summary_month r) = 5 \<and>
       sm_completionRate (summary_month r) = 80)"
proof -
  note p = streakTasks_report [of utc 1755600000000 "''all''" None]
  have a: "filter (baseFilter (getDateRange utc 1755600000000 ''all'') None) streakTasks
           = streakTasks"
    by (simp add: streakTasks_ranges baseFilter_def streakTasks_def)
  have b: "count_completed streakTasks = 4" "length streakTasks = 5"
    by (simp_all add: count_completed_def streakTasks_def)
  have "fl (fl (4 / 5) * 100) = 80" by code_simp
  then have c: "rate streakTasks = 80" by (simp add: rate_def b)
  have t: "filter (\<lambda>task. toDateString utc (t_createdAt task) = toDateString utc 1755600000000)
             streakTasks = []"
    by (simp add: streakTasks_def toDateString_utc)
  have m: "filter (\<lambda>task. t_createdAt task \<ge> 1755600000000 - 30 * 24 * 60 * 60 * 1000)
             streakTasks = streakTasks"
    by (simp add: streakTasks_def)
  show ?thesis
    using report_counts_and_rates [OF p] p
    unfolding Let_def report_fields [OF p] a t m
    by (simp add: b c Math_round_8000 summarize_def fl_values rate_Nil)
qed

lemma overdue_not_completed: "isOverdue s task = Inr True \<Longrightarrow> \<not> t_completed task"
  by (auto simp: isOverdue_def split: if_splits)

lemma length_filter_overdue:
  "int (length (filter (\<lambda>task. isOverdue s task = Inr True) ts))
   \<le> int (length ts) - count_completed ts"
proof -
  have "length (filter (\<lambda>task. isOverdue s task = Inr True) ts)
        \<le> length (filter (\<lambda>t. \<not> t_completed t) ts)"
  proof (induction ts)
    case Nil
    then show ?case by simp
  next
    case (Cons t ts)
    then show ?case using overdue_not_completed [of s t] by auto
  qed
  moreover have "length (filter t_completed ts) + length (filter (\<lambda>t. \<not> t_completed t) ts)
                 = length ts"
    by (rule sum_length_filter_compl)
  ultimately show ?thesis by (simp add: count_completed_def)
qed

text \<open>
  C9. In every report that is produced the overdue count is at most the pending count,
  and neither is negative: an overdue task is one that is not completed.
\<close>

theorem overdue_at_most_pending:
  assumes "report z now userTasks period categoryId = Inr r"
  shows "0 \<le> overdueTasks (overview r) \<and> overdueTasks (overview r) \<le> pendingTasks (overview r)
         \<and> 0 \<le> pendingTasks (overview r)"
proof -
  define tasks where "tasks = filter (baseFilter (getDateRange z now period) categoryId) userTasks"
  have o: "overdueTasks (overview r)
      = int (length (filter (\<lambda>task. isOverdue (split_T (toISOString now)) task = Inr True) tasks))"
    using filter_length_Inr [OF report_fields(5) [OF assms]] by (simp add: tasks_def)
  have "count_completed tasks \<le> int (length tasks)"
    using count_completed_bounds [of tasks] by simp
  then show ?thesis
    unfolding o report_fields(3) [OF assms] tasks_def [symmetric]
    using length_filter_overdue [of "split_T (toISOString now)" tasks]
    by simp
qed

lemma dueTasks_today: "split_T (toISOString 1755700000000) = ''2025-08-20''"
  by code_simp

lemma dueTasks_overdue:
  "filter_length (isOverdue ''2025-08-20'') dueTasks = Inr 1"
  by code_simp

lemma dueTasks_in_range:
  "filter (baseFilter (getDateRange utc 1755700000000 ''all'') None) dueTasks = dueTasks"
  by (simp add: getDateRange_local baseFilter_def dueTasks_def task1_def task2_def task3_def)

lemma dueTasks_report:
  "report utc 1755700000000 dueTasks ''all'' None
   = Inr (projr (report utc 1755700000000 dueTasks ''all'' None))"
proof (rule produced)
  show "\<exists>r. report utc 1755700000000 dueTasks ''all'' None = Inr r"
    by (simp add: report_def Let_def dueTasks_in_range dueTasks_today dueTasks_overdue)
qed

theorem overdue_at_most_pending_witness:
  "report utc 1755700000000 dueTasks ''all'' None
     = Inr (projr (report utc 1755700000000 dueTasks ''all'' None)) \<and>
   overdueTasks (overview (projr (report utc 1755700000000 dueTasks ''all'' None))) = 1 \<and>
   pendingTasks (overview (projr (report utc 1755700000000 dueTasks ''all'' None))) = 2"
proof -
  note p = dueTasks_report
  have "Inr (overdueTasks (overview (projr (report utc 1755700000000 dueTasks ''all'' None))))
        = (Inr 1 :: jsError + int)"
    using report_fields(5) [OF p] by (simp add: dueTasks_in_range dueTasks_today dueTasks_overdue)
  moreover have "pendingTasks (overview (projr (report utc 1755700000000 dueTasks ''all'' None))) = 2"
    unfolding report_fields(3) [OF p] dueTasks_in_range
    by (simp add: count_completed_def dueTasks_def task1_def task2_def task3_def)
  ultimately show ?thesis
    using overdue_at_most_pending [OF p] p by simp
qed

section \<open>What the report computes over the whole history and what over the period\<close>

lemma streakTasks_productiveDays:
  "productiveDays (overview (projr (report utc 1755600000000 streakTasks ''today'' None))) = 0"
  "productiveDays (overview (projr (report utc 1755600000000 streakTasks ''all'' None))) = 3"
  unfolding report_fields(6) [OF streakTasks_report]
  by (simp_all add: streakTasks_ranges baseFilter_def streakTasks_def toDateString_utc)

text \<open>
  C3 as stated fails for \<^verbatim>\<open>productiveDays\<close>: for the five example tasks, all created
  on 31 July 2025 and asked about on 19 August, both requests produce a report; the one
  for \<^verbatim>\<open>today\<close> counts no productive day, the one for \<^verbatim>\<open>all\<close> counts three.
\<close>

theorem productiveDays_counterexample:
  "\<not> isl (report utc 1755600000000 streakTasks ''today'' None) \<and>
   \<not> isl (report utc 1755600000000 streakTasks ''all'' None) \<and>
   productiveDays (overview (projr (report utc 1755600000000 streakTasks ''today'' None))) = 0 \<and>
   productiveDays (overview (projr (report utc 1755600000000 streakTasks ''all'' None))) = 3"
proof -
  have "\<not> isl (report utc 1755600000000 streakTasks period None)" for period
    using streakTasks_report [of utc 1755600000000 period None] by (metis sum.disc(2))
  then show ?thesis by (simp add: streakTasks_productiveDays)
qed

text \<open>
  C3, amended: \<^verbatim>\<open>currentStreak\<close> is computed over the whole task history, so two
  reports over the same history that differ in the period or the category hold the same
  streak; \<^verbatim>\<open>productiveDays\<close> is the number of distinct completion days among the tasks
  that pass the period and category filter of the request.
\<close>

theorem streak_unfiltered_productiveDays_filtered:
  assumes "report z now userTasks period categoryId = Inr r"
    and "report z now userTasks period' categoryId' = Inr r'"
  shows "currentStreak (overview r) = currentStreak (overview r') \<and>
         currentStreak (overview r) = calculateStreak z now userTasks \<and>
         productiveDays (overview r)
           = int (card (completionDays z
               (filter (baseFilter (getDateRange z now period) categoryId) userTasks)))"
  unfolding report_fields(6,7) [OF assms(1)] report_fields(7) [OF assms(2)]
  by (simp add: completionDays_def length_remdups_card_conv)

theorem streak_unfiltered_productiveDays_filtered_witness:
  "report utc 1755600000000 streakTasks ''today'' None
     = Inr (projr (report utc 1755600000000 streakTasks ''today'' None)) \<and>
   report utc 1755600000000 streakTasks ''all'' (Some ''work'')
     = Inr (projr (report utc 1755600000000 streakTasks ''all'' (Some ''work''))) \<and>
   currentStreak (overview (projr (report utc 1755600000000 streakTasks ''today'' None))) = 3 \<and>
   currentStreak (overview (projr (report utc 1755600000000 streakTasks ''all'' (Some ''work'')))) = 3"
proof -
  note p = streakTasks_report [of utc 1755600000000 "''today''" None]
  note q = streakTasks_report [of utc 1755600000000 "''all''" "Some ''work''"]
  show ?thesis
    using streak_unfiltered_productiveDays_filtered [OF p q] p q
    by (simp add: streakTasks_streak)
qed

lemma streakTasks_month:
  "sm_total (summary_month (projr (report utc 1755600000000 streakTasks ''all'' None))) = 5"
  "sm_total (summary_month (projr (report utc 1755600000000 streakTasks ''week'' None))) = 0"
  unfolding report_fields(10) [OF streakTasks_report]
  by (simp_all add: streakTasks_ranges baseFilter_def streakTasks_def summarize_def)

text \<open>
  C4 as stated fails: the five example tasks were created on 31 July 2025, inside the
  trailing 30 days of the request of 19 August. Both requests produce a report; the month
  block counts all five when the period is \<^verbatim>\<open>all\<close> and none when it is \<^verbatim>\<open>week\<close>.
\<close>

theorem summary_month_counterexample:
  "\<not> isl (report utc 1755600000000 streakTasks ''all'' None) \<and>
   \<not> isl (report utc 1755600000000 streakTasks ''week'' None) \<and>
   sm_total (summary_month (projr (report utc 1755600000000 streakTasks ''all'' None))) = 5 \<and>
   sm_total (summary_month (projr (report utc 1755600000000 streakTasks ''week'' None))) = 0"
proof -
  have "\<not> isl (report utc 1755600000000 streakTasks period None)" for period
    using streakTasks_report [of utc 1755600000000 period None] by (metis sum.disc(2))
  then show ?thesis by (simp add: streakTasks_month)
qed

lemma Day_upper: "t < Day t * msPerDay + msPerDay"
proof -
  have "t = Day t * msPerDay + TimeWithinDay t"
    by (simp add: Day_def TimeWithinDay_def)
  moreover have "TimeWithinDay t < msPerDay"
    by (simp add: TimeWithinDay_def msPerDay_def)
  ultimately show ?thesis by linarith
qed

text \<open>
  A time value on the local day of \<open>now\<close> is not before the start of the period
  \<^verbatim>\<open>today\<close>. (Were the clocks put forward from 23:30 to 00:30, the first half hour of the
  new day would come before the time value that \<^verbatim>\<open>setHours(0, 0, 0, 0)\<close> yields.)
\<close>

lemma created_today_after_midnight:
  assumes "forwardBy23 z" and "toDateString z c = toDateString z now"
  shows "fst (getDateRange z now ''today'') \<le> c"
proof (rule ccontr)
  define D where "D = Day (LocalTime z now)"
  define m where "m = D * msPerDay"
  define std where "std = tz_standard z"
  assume "\<not> fst (getDateRange z now ''today'') \<le> c"
  then have before: "c < UTC z m"
    by (simp add: getDateRange_def setHours0_def MakeDate_def D_def m_def)
  have "Day (LocalTime z c) = D"
    using assms(2) by (simp add: toDateString_def D_def)
  then have Lc: "m \<le> LocalTime z c"
    using Day_lower [of "LocalTime z c"] by (simp add: m_def)
  have c_hi: "LocalTime z c \<le> c + std + msPerHour"
    using LocalTZA_cases [of z c True] by (auto simp: LocalTime_def std_def msPerHour_def)
  consider (summer) "LocalTZA z m False = std + msPerHour" | (standard) "LocalTZA z m False = std"
    using LocalTZA_cases [of z m False] by (auto simp: std_def)
  then show False
  proof cases
    case summer
    then have "UTC z m = m - std - msPerHour" by (simp add: UTC_def)
    then show False using before Lc c_hi by simp
  next
    case standard
    then have u: "UTC z m = m - std" by (simp add: UTC_def)
    then have "c + std < LocalTime z c" using before Lc by simp
    then have "LocalTZA z c True \<noteq> std" by (simp add: LocalTime_def)
    then have "list_ex (\<lambda>(a, b). a \<le> c \<and> c < b) (tz_summer z)"
      by (auto simp: LocalTZA_def std_def split: if_splits)
    then obtain a b where ab: "(a, b) \<in> set (tz_summer z)" "a \<le> c" "c < b"
      by (auto simp: list_ex_iff)
    have "\<not> list_ex (\<lambda>(a, b). a + std + msPerHour \<le> m \<and> m < b + std + msPerHour) (tz_summer z)"
      using standard by (auto simp: LocalTZA_def std_def msPerHour_def split: if_splits)
    then have "\<not> (a + std + msPerHour \<le> m \<and> m < b + std + msPerHour)"
      using ab(1) by (auto simp: list_ex_iff)
    moreover have "m < b + std + msPerHour"
      using Lc c_hi ab(3) by simp
    ultimately have inside: "m < a + std + msPerHour" by simp
    have start: "a + std < m" using ab(2) before u by simp
    have tod: "TimeWithinDay (a + std) \<le> 23 * msPerHour"
      using assms(1) ab(1) by (auto simp: forwardBy23_def list_all_iff std_def)
    have split: "a + std = Day (a + std) * msPerDay + TimeWithinDay (a + std)"
      by (simp add: Day_def TimeWithinDay_def)
    have "Day (a + std) * msPerDay < D * msPerDay"
      using Day_lower [of "a + std"] start by (simp add: m_def)
    then have "Day (a + std) < D" by (simp add: msPerDay_def)
    then have "Day (a + std) + 1 \<le> D" by simp
    then have "(Day (a + std) + 1) * msPerDay \<le> D * msPerDay"
      by (simp only: msPerDay_def mult_le_cancel_right) simp
    then have "Day (a + std) * msPerDay + msPerDay \<le> m"
      by (simp add: m_def algebra_simps)
    then show False
      using split tod inside by (simp add: msPerDay_def msPerHour_def)
  qed
qed

lemma TimeWithinDay_range: "0 \<le> TimeWithinDay t \<and> TimeWithinDay t < msPerDay"
  by (simp add: TimeWithinDay_def msPerDay_def)

lemma created_today_after_start:
  assumes "toDateString z c = toDateString z now" and "6 * msPerDay \<le> k"
  shows "UTC z (LocalTime z now - k) \<le> c"
proof -
  define D where "D = Day (LocalTime z now)"
  define std where "std = tz_standard z"
  have "Day (LocalTime z c) = D"
    using assms(1) by (simp add: toDateString_def D_def)
  then have "D * msPerDay \<le> LocalTime z c"
    using Day_lower [of "LocalTime z c"] by simp
  moreover have "LocalTime z c \<le> c + std + msPerHour"
    using LocalTZA_cases [of z c True] by (auto simp: LocalTime_def std_def msPerHour_def)
  moreover have "LocalTime z now < D * msPerDay + msPerDay"
    using Day_upper [of "LocalTime z now"] by (simp add: D_def)
  moreover have "now + std \<le> LocalTime z now"
    using LocalTZA_cases [of z now True] by (auto simp: LocalTime_def std_def msPerHour_def)
  moreover have "UTC z (LocalTime z now - k) \<le> now - k + msPerHour"
    using UTC_LocalTime_bounds [of now k z] by simp
  ultimately show ?thesis
    using assms(2) by (simp add: msPerDay_def msPerHour_def)
qed

lemma today_within_period:
  assumes "forwardBy23 z"
    and "toDateString z (t_createdAt task) = toDateString z now"
    and "period = ''week'' \<or> period = ''month''"
  shows "baseFilter (getDateRange z now period) categoryId task
         = baseFilter (getDateRange z now ''today'') categoryId task"
proof -
  have m: "fst (getDateRange z now ''today'') \<le> t_createdAt task"
    using created_today_after_midnight [OF assms(1,2)] .
  have "28 * msPerDay \<le> previousMonthLength z now * msPerDay"
    using previousMonthLength_range [of z now] by (simp add: msPerDay_def)
  then have "6 * msPerDay \<le> previousMonthLength z now * msPerDay"
    by (simp add: msPerDay_def)
  then have "UTC z (LocalTime z now - previousMonthLength z now * msPerDay) \<le> t_createdAt task"
    by (rule created_today_after_start [OF assms(2)])
  moreover have "UTC z (LocalTime z now - 7 * msPerDay) \<le> t_createdAt task"
    by (rule created_today_after_start [OF assms(2)]) (simp add: msPerDay_def)
  ultimately show ?thesis
    using assms(3) m by (auto simp: baseFilter_def getDateRange_local(2,3,4) getDateRange_end)
qed

lemma today_tasks_same:
  assumes "forwardBy23 z" and "period = ''week'' \<or> period = ''month''"
  shows "filter (\<lambda>task. toDateString z (t_createdAt task) = toDateString z now)
           (filter (baseFilter (getDateRange z now period) categoryId) userTasks)
       = filter (\<lambda>task. toDateString z (t_createdAt task) = toDateString z now)
           (filter (baseFilter (getDateRange z now ''today'') categoryId) userTasks)"
proof -
  have "filter (\<lambda>task. baseFilter (getDateRange z now period) categoryId task \<and>
                 toDateString z (t_createdAt task) = toDateString z now) userTasks
      = filter (\<lambda>task. baseFilter (getDateRange z now ''today'') categoryId task \<and>
                 toDateString z (t_createdAt task) = toDateString z now) userTasks"
    by (rule filter_cong) (auto simp: today_within_period [OF assms(1) _ assms(2)])
  then show ?thesis by simp
qed

text \<open>
  C4, amended: each summary block is computed from the tasks that pass the period and
  category filter of the request and, among those, fall into the block's own window:
  created on the local day of \<open>now\<close>, at most 7 times 24 hours before \<open>now\<close>, at most 30
  times 24 hours before \<open>now\<close>. The today block is therefore the same whether the period
  is \<^verbatim>\<open>today\<close>, \<^verbatim>\<open>week\<close> or \<^verbatim>\<open>month\<close> (in every time zone whose skipped hours end by
  midnight, those without a change of the clocks among them); the week and month blocks
  shrink with the period.
\<close>

theorem summary_blocks_within_period:
  assumes "report z now userTasks period categoryId = Inr r"
    and "report z now userTasks ''today'' categoryId = Inr rt"
    and "report z now userTasks ''week'' categoryId = Inr rw"
    and "report z now userTasks ''month'' categoryId = Inr rm"
  shows "summary_today r
           = summarize (filter (\<lambda>task. baseFilter (getDateRange z now period) categoryId task \<and>
                                  toDateString z (t_createdAt task) = toDateString z now)
                          userTasks) \<and>
         summary_week r
           = summarize (filter (\<lambda>task. baseFilter (getDateRange z now period) categoryId task \<and>
                                  now - 7 * msPerDay \<le> t_createdAt task)
                          userTasks) \<and>
         summary_month r
           = summarize (filter (\<lambda>task. baseFilter (getDateRange z now period) categoryId task \<and>
                                  now - 30 * msPerDay \<le> t_createdAt task)
                          userTasks) \<and>
         (forwardBy23 z \<longrightarrow>
            summary_today rw = summary_today rt \<and> summary_today rm = summary_today rt)"
proof -
  have "summary_today rw = summary_today rt" if "forwardBy23 z"
    unfolding report_fields(8) [OF assms(3)] report_fields(8) [OF assms(2)]
    using today_tasks_same [OF that, of "''week''" now categoryId userTasks] by simp
  moreover have "summary_today rm = summary_today rt" if "forwardBy23 z"
    unfolding report_fields(8) [OF assms(4)] report_fields(8) [OF assms(2)]
    using today_tasks_same [OF that, of "''month''" now categoryId userTasks] by simp
  ultimately show ?thesis
    unfolding report_fields(8,9,10) [OF assms(1)]
    by (simp add: msPerDay_def)
qed

lemma forwardBy23_newYork: "forwardBy23 newYork"
  by code_simp

lemma streakTasks_all_newYork:
  "filter (baseFilter (getDateRange newYork 1755600000000 ''all'') None) streakTasks = streakTasks"
  by (simp add: getDateRange_local(4) baseFilter_def streakTasks_def)

theorem summary_blocks_within_period_witness:
  "report newYork 1755600000000 streakTasks ''all'' None
     = Inr (projr (report newYork 1755600000000 streakTasks ''all'' None)) \<and>
   report newYork 1755600000000 streakTasks ''today'' None
     = Inr (projr (report newYork 1755600000000 streakTasks ''today'' None)) \<and>
   report newYork 1755600000000 streakTasks ''week'' None
     = Inr (projr (report newYork 1755600000000 streakTasks ''week'' None)) \<and>
   report newYork 1755600000000 streakTasks ''month'' None
     = Inr (projr (report newYork 1755600000000 streakTasks ''month'' None)) \<and>
   forwardBy23 newYork \<and>
   sm_total (summary_month (projr (report newYork 1755600000000 streakTasks ''all'' None))) = 5 \<and>
   summary_today (projr (report newYork 1755600000000 streakTasks ''week'' None))
     = summary_today (projr (report newYork 1755600000000 streakTasks ''today'' None))"
proof -
  note p = streakTasks_report [of newYork 1755600000000 _ None]
  have m: "sm_total (summary_month (projr (report newYork 1755600000000 streakTasks ''all'' None)))
           = 5"
    unfolding report_fields(10) [OF p] streakTasks_all_newYork
    by (simp add: streakTasks_def summarize_def)
  show ?thesis
    using summary_blocks_within_period [OF p [of "''all''"] p [of "''today''"]
        p [of "''week''"] p [of "''month''"]]
      p [of "''all''"] p [of "''today''"] p [of "''week''"] p [of "''month''"]
      forwardBy23_newYork m
    by simp
qed

end
